theory Spec2Isabelle
  imports Main "HOL-Library.Multiset"
begin

section \<open>Python values\<close>

text \<open>
  The methods of \<^verbatim>\<open>hash_table.py\<close> are annotated with \<^verbatim>\<open>str\<close> arguments, but Python
  does not enforce annotations, and the code itself calls \<^verbatim>\<open>str(...)\<close> on what it receives.
  An argument is therefore a value that is either a string, the annotated case, or an
  integer. Python's \<^verbatim>\<open>==\<close> on these values is HOL equality: a string never equals an
  integer. A string is a \<^typ>\<open>string\<close>; a character stands for the code point of the same
  number (0 to 255).
\<close>

datatype pyval = PStr string | PInt int

text \<open>The exceptions the code can raise: the \<^verbatim>\<open>ValueError\<close> of the constructor with its
  message, and those of \<^verbatim>\<open>%\<close> and of list indexing.\<close>

datatype error = ValueError string | ZeroDivisionError | IndexError

text \<open>The decimal digits of a natural number, as \<^verbatim>\<open>str\<close> and an f-string print one.\<close>

definition digit_char :: "nat \<Rightarrow> char" where
  "digit_char d = ''0123456789'' ! d"

fun str_nat :: "nat \<Rightarrow> string" where
  "str_nat n = (if n < 10 then [digit_char n] else str_nat (n div 10) @ [digit_char (n mod 10)])"

declare str_nat.simps [simp del]

text \<open>\<^verbatim>\<open>str(x)\<close>: a string is returned as it is, an integer in decimal.\<close>

fun py_str :: "pyval \<Rightarrow> string" where
  "py_str (PStr s) = s"
| "py_str (PInt i) = (if i < 0 then CHR ''-'' # str_nat (nat (- i)) else str_nat (nat i))"

text \<open>\<^verbatim>\<open>ord(c)\<close>\<close>

definition py_ord :: "char \<Rightarrow> int" where
  "py_ord c = of_char c"

text \<open>\<^verbatim>\<open>sum(...)\<close> adds the items to 0, from left to right.\<close>

definition py_sum :: "int list \<Rightarrow> int" where
  "py_sum xs = foldl (+) 0 xs"

text \<open>\<^verbatim>\<open>xs[i]\<close> and \<^verbatim>\<open>xs[i] = v\<close>: a negative index counts from the end, an index out of
  range raises \<^verbatim>\<open>IndexError\<close>.\<close>

definition list_getitem :: "'a list \<Rightarrow> int \<Rightarrow> error + 'a" where
  "list_getitem xs i =
     (let j = (if i < 0 then i + int (length xs) else i)
      in if j < 0 \<or> int (length xs) \<le> j then Inl IndexError else Inr (xs ! nat j))"

definition list_setitem :: "'a list \<Rightarrow> int \<Rightarrow> 'a \<Rightarrow> error + 'a list" where
  "list_setitem xs i v =
     (let j = (if i < 0 then i + int (length xs) else i)
      in if j < 0 \<or> int (length xs) \<le> j then Inl IndexError else Inr (xs[nat j := v]))"

text \<open>\<^verbatim>\<open>sep.join(parts)\<close>\<close>

fun join :: "string \<Rightarrow> string list \<Rightarrow> string" where
  "join sep [] = []"
| "join sep [x] = x"
| "join sep (x # y # ys) = x @ sep @ join sep (y # ys)"

section \<open>Contact, Node and HashTable\<close>

text \<open>
  A \<^verbatim>\<open>Contact\<close> is mutated after it has been handed out (\<^verbatim>\<open>curr.value.number = number\<close>),
  so Contact objects live in a store, a list indexed by address, and a node holds the
  address of its Contact. A \<^verbatim>\<open>Node\<close> is written only before it is linked into the table
  (\<^verbatim>\<open>new_node.next = head\<close>), never afterwards, so a chain of nodes is a value.
\<close>

record contact =
  name :: pyval
  number :: pyval

type_synonym addr = nat
type_synonym heap = "contact list"

datatype node = Node (node_key: pyval) (node_value: addr) (node_next: "node option")

record hash_table =
  size_ht :: int
  data :: "node option list"

text \<open>\<^verbatim>\<open>Contact.__init__\<close>: both fields are set to the string forms of the arguments.\<close>

definition Contact_init :: "pyval \<Rightarrow> pyval \<Rightarrow> contact" where
  "Contact_init nm num = \<lparr>name = PStr (py_str nm), number = PStr (py_str num)\<rparr>"

text \<open>\<^verbatim>\<open>Contact.__str__\<close>: an f-string formats a field as \<^verbatim>\<open>str\<close> does.\<close>

definition Contact_str :: "contact \<Rightarrow> string" where
  "Contact_str c = py_str (name c) @ '': '' @ py_str (number c)"

text \<open>\<^verbatim>\<open>HashTable.__init__\<close>; the argument \<open>None\<close> is the call without a size.\<close>

definition HashTable_init :: "int option \<Rightarrow> error + hash_table" where
  "HashTable_init arg =
     (let size = (case arg of None \<Rightarrow> 10 | Some s \<Rightarrow> s)
      in if size \<le> 0 then Inl (ValueError ''HashTable size must be positive.'')
         else Inr \<lparr>size_ht = size, data = replicate (nat size) None\<rparr>)"

text \<open>\<^verbatim>\<open>hash_function\<close>; \<^verbatim>\<open>%\<close> raises \<^verbatim>\<open>ZeroDivisionError\<close> on a size of 0, and is \<open>mod\<close> on
  the integers otherwise (the result has the sign of the divisor).\<close>

definition hash_function :: "hash_table \<Rightarrow> pyval \<Rightarrow> error + int" where
  "hash_function t key =
     (if size_ht t = 0 then Inl ZeroDivisionError
      else Inr (py_sum (map py_ord (py_str key)) mod size_ht t))"

text \<open>The \<^verbatim>\<open>while\<close> loop of \<^verbatim>\<open>insert\<close>: \<open>Some\<close> is the early \<^verbatim>\<open>return\<close> after the update of
  the Contact, \<open>None\<close> the end of the chain.\<close>

fun insert_loop :: "heap \<Rightarrow> node option \<Rightarrow> pyval \<Rightarrow> pyval \<Rightarrow> heap option" where
  "insert_loop h None nm num = None"
| "insert_loop h (Some (Node k v nx)) nm num =
     (if k = nm then Some (h[v := (h ! v)\<lparr>number := num\<rparr>])
      else insert_loop h nx nm num)"

text \<open>\<^verbatim>\<open>insert\<close>, on the store of Contacts and the table, which it returns as it leaves them.
  The new Contact gets the next free address. \<^verbatim>\<open>Node(name, new_contact)\<close> followed by
  \<^verbatim>\<open>new_node.next = head\<close> is the node built with \<open>head\<close> as its \<open>next\<close>; its key is the
  name as given.\<close>

definition insert_ht :: "heap \<Rightarrow> hash_table \<Rightarrow> pyval \<Rightarrow> pyval \<Rightarrow> error + heap \<times> hash_table" where
  "insert_ht h t nm num =
     (case hash_function t nm of
        Inl e \<Rightarrow> Inl e
      | Inr idx \<Rightarrow>
         (case list_getitem (data t) idx of
            Inl e \<Rightarrow> Inl e
          | Inr head \<Rightarrow>
             (case insert_loop h head nm num of
                Some h' \<Rightarrow> Inr (h', t)
              | None \<Rightarrow>
                 (let new_contact = length h;
                      h' = h @ [Contact_init nm num];
                      new_node = Node nm new_contact head
                  in case list_setitem (data t) idx (Some new_node) of
                       Inl e \<Rightarrow> Inl e
                     | Inr d \<Rightarrow> Inr (h', t\<lparr>data := d\<rparr>)))))"

text \<open>\<^verbatim>\<open>search\<close> returns the reference to a Contact, here its address, or \<open>None\<close>. Its loop
  compares the key of each node with the name as given.\<close>

fun search_loop :: "node option \<Rightarrow> pyval \<Rightarrow> addr option" where
  "search_loop None nm = None"
| "search_loop (Some (Node k v nx)) nm = (if k = nm then Some v else search_loop nx nm)"

definition search :: "hash_table \<Rightarrow> pyval \<Rightarrow> error + addr option" where
  "search t nm =
     (case hash_function t nm of
        Inl e \<Rightarrow> Inl e
      | Inr idx \<Rightarrow>
         (case list_getitem (data t) idx of
            Inl e \<Rightarrow> Inl e
          | Inr cur \<Rightarrow> Inr (search_loop cur nm)))"

text \<open>The inner loop of \<^verbatim>\<open>print_table\<close>, which appends to \<^verbatim>\<open>parts\<close>.\<close>

fun parts_loop :: "heap \<Rightarrow> node option \<Rightarrow> string list \<Rightarrow> string list" where
  "parts_loop h None parts = parts"
| "parts_loop h (Some (Node k v nx)) parts =
     parts_loop h nx (parts @ [''- '' @ Contact_str (h ! v)])"

text \<open>The \<^verbatim>\<open>for\<close> loop of \<^verbatim>\<open>print_table\<close> over the indices still to visit: the lines
  printed, and the exception that ended the loop, if any.\<close>

fun print_rows :: "heap \<Rightarrow> hash_table \<Rightarrow> nat list \<Rightarrow> string list \<times> error option" where
  "print_rows h t [] = ([], None)"
| "print_rows h t (i # js) =
     (case list_getitem (data t) (int i) of
        Inl e \<Rightarrow> ([], Some e)
      | Inr node \<Rightarrow>
         (let line = (case node of
                        None \<Rightarrow> ''Index '' @ str_nat i @ '': Empty''
                      | Some _ \<Rightarrow> ''Index '' @ str_nat i @ '': '' @ join '' '' (parts_loop h node []));
              rest = print_rows h t js
          in (line # fst rest, snd rest)))"

definition print_table :: "heap \<Rightarrow> hash_table \<Rightarrow> string list \<times> error option" where
  "print_table h t = print_rows h t [0..<nat (size_ht t)]"

section \<open>Reading a table\<close>

text \<open>The entries of a chain from its head, each with its key and the address of its
  Contact, and the entries of the whole table, bucket after bucket.\<close>

fun chain :: "node option \<Rightarrow> (pyval \<times> addr) list" where
  "chain None = []"
| "chain (Some (Node k v nx)) = (k, v) # chain nx"

definition entries :: "hash_table \<Rightarrow> (pyval \<times> addr) list" where
  "entries t = concat (map chain (data t))"

text \<open>The index the specification gives a key: the sum of the character codes of its
  string form, modulo the capacity.\<close>

definition bucket :: "hash_table \<Rightarrow> pyval \<Rightarrow> nat" where
  "bucket t key = nat ((\<Sum>c\<leftarrow>py_str key. py_ord c) mod size_ht t)"

text \<open>What holds of a table built by \<^verbatim>\<open>HashTable.__init__\<close> and filled by \<^verbatim>\<open>insert\<close>: the
  size is positive and is the length of \<^verbatim>\<open>data\<close>; every entry lies in the bucket of its key;
  no key and no Contact occurs twice; every Contact is allocated.\<close>

definition wf_table :: "hash_table \<Rightarrow> bool" where
  "wf_table t \<longleftrightarrow> 0 < size_ht t \<and> int (length (data t)) = size_ht t"

definition placed :: "hash_table \<Rightarrow> bool" where
  "placed t \<longleftrightarrow>
     list_all (\<lambda>i. list_all (\<lambda>e. hash_function t (fst e) = Inr (int i)) (chain (data t ! i)))
       [0..<length (data t)]"

definition table_inv :: "heap \<Rightarrow> hash_table \<Rightarrow> bool" where
  "table_inv h t \<longleftrightarrow>
     wf_table t \<and> placed t \<and> distinct (map fst (entries t)) \<and>
     distinct (map snd (entries t)) \<and> list_all (\<lambda>e. snd e < length h) (entries t)"

text \<open>A caller that runs \<^verbatim>\<open>insert\<close> on each pair of a list in turn.\<close>

fun inserts :: "heap \<Rightarrow> hash_table \<Rightarrow> (pyval \<times> pyval) list \<Rightarrow> error + heap \<times> hash_table" where
  "inserts h t [] = Inr (h, t)"
| "inserts h t (x # xs) =
     (case insert_ht h t (fst x) (snd x) of
        Inl e \<Rightarrow> Inl e
      | Inr s \<Rightarrow> inserts (fst s) (snd s) xs)"

text \<open>The table of the demonstration script, \<^verbatim>\<open>HashTable(10)\<close>.\<close>

definition table10 :: hash_table where
  "table10 = \<lparr>size_ht = 10, data = replicate 10 None\<rparr>"

text \<open>The dump as the specification words it: an entry is rendered from its Contact as
  \<^verbatim>\<open>- <name>: <number>\<close>; the line of a bucket is \<^verbatim>\<open>Empty\<close> or its entries from the head,
  with one space between two of them.\<close>

definition render_entry :: "heap \<Rightarrow> pyval \<times> addr \<Rightarrow> string" where
  "render_entry h e = ''- '' @ py_str (name (h ! snd e)) @ '': '' @ py_str (number (h ! snd e))"

definition dump_line :: "heap \<Rightarrow> hash_table \<Rightarrow> nat \<Rightarrow> string" where
  "dump_line h t i =
     ''Index '' @ str_nat i @ '': '' @
     (case chain (data t ! i) of
        [] \<Rightarrow> ''Empty''
      | e # es \<Rightarrow> render_entry h e @ concat (map (\<lambda>x. '' '' @ render_entry h x) es))"

text \<open>The four insertions of the demonstration script before its update of Rebecca, and
  the Contacts and the table they leave.\<close>

definition script_ops :: "(pyval \<times> pyval) list" where
  "script_ops =
     [(PStr ''John'', PStr ''909-876-1234''), (PStr ''Rebecca'', PStr ''111-555-0002''),
      (PStr ''Amy'', PStr ''111-222-3333''), (PStr ''May'', PStr ''222-333-1111'')]"

definition script_heap :: heap where
  "script_heap =
     [\<lparr>name = PStr ''John'', number = PStr ''909-876-1234''\<rparr>,
      \<lparr>name = PStr ''Rebecca'', number = PStr ''111-555-0002''\<rparr>,
      \<lparr>name = PStr ''Amy'', number = PStr ''111-222-3333''\<rparr>,
      \<lparr>name = PStr ''May'', number = PStr ''222-333-1111''\<rparr>]"

definition script_table :: hash_table where
  "script_table =
     \<lparr>size_ht = 10,
      data = [None, None, None, None, None,
              Some (Node (PStr ''May'') 3 (Some (Node (PStr ''Amy'') 2 None))),
              None,
              Some (Node (PStr ''Rebecca'') 1 None),
              None,
              Some (Node (PStr ''John'') 0 None)]\<rparr>"

section \<open>Auxiliary facts\<close>

lemma py_sum_sum_list: "py_sum xs = sum_list xs"
proof -
  have "foldl (+) a xs = a + sum_list xs" for a :: int
    by (induction xs arbitrary: a) simp_all
  then show ?thesis by (simp add: py_sum_def)
qed

lemma hash_function_bucket:
  assumes "0 < size_ht t"
  shows "hash_function t key = Inr (int (bucket t key))"
  using assms by (simp add: hash_function_def bucket_def py_sum_sum_list)

lemma bucket_less: "wf_table t \<Longrightarrow> bucket t key < length (data t)"
  unfolding wf_table_def bucket_def
  by (metis nat_less_iff nat_int pos_mod_bound pos_mod_sign)

lemma list_getitem_nat: "i < length xs \<Longrightarrow> list_getitem xs (int i) = Inr (xs ! i)"
  by (simp add: list_getitem_def)

lemma list_setitem_nat: "i < length xs \<Longrightarrow> list_setitem xs (int i) v = Inr (xs[i := v])"
  by (simp add: list_setitem_def)

lemma search_loop_map_of: "search_loop c nm = map_of (chain c) nm"
  by (induction c nm rule: search_loop.induct) simp_all

lemma insert_loop_search_loop:
  "insert_loop h c nm num = map_option (\<lambda>a. h[a := (h ! a)\<lparr>number := num\<rparr>]) (search_loop c nm)"
  by (induction h c nm num rule: insert_loop.induct) simp_all

lemma search_wf:
  "wf_table t \<Longrightarrow> search t nm = Inr (map_of (chain (data t ! bucket t nm)) nm)"
  by (simp add: search_def hash_function_bucket wf_table_def list_getitem_nat bucket_less
      search_loop_map_of)

lemma insert_ht_wf:
  assumes "wf_table t"
  shows "insert_ht h t nm num =
    Inr (case map_of (chain (data t ! bucket t nm)) nm of
           Some a \<Rightarrow> (h[a := (h ! a)\<lparr>number := num\<rparr>], t)
         | None \<Rightarrow> (h @ [Contact_init nm num],
             t\<lparr>data := (data t)[bucket t nm := Some (Node nm (length h) (data t ! bucket t nm))]\<rparr>))"
proof -
  have hf: "hash_function t nm = Inr (int (bucket t nm))"
    using assms by (simp add: hash_function_bucket wf_table_def)
  have lt: "bucket t nm < length (data t)"
    using assms by (rule bucket_less)
  show ?thesis
    by (simp add: insert_ht_def hf list_getitem_nat [OF lt] list_setitem_nat [OF lt]
        insert_loop_search_loop search_loop_map_of split: option.split)
qed

lemma mset_concat_update:
  "i < length xss \<Longrightarrow> xss ! i = ys \<Longrightarrow>
   mset (concat (xss[i := x # ys])) = add_mset x (mset (concat xss))"
proof (induction xss arbitrary: i)
  case Nil
  then show ?case by simp
next
  case (Cons zs xss)
  then show ?case by (cases i) auto
qed

lemma entries_update:
  assumes "i < length (data t)"
  shows "mset (entries (t\<lparr>data := (data t)[i := Some (Node k a (data t ! i))]\<rparr>)) =
         add_mset (k, a) (mset (entries t))"
proof -
  have "map chain ((data t)[i := Some (Node k a (data t ! i))]) =
        (map chain (data t))[i := (k, a) # chain (data t ! i)]"
    by (simp add: map_update)
  moreover have "map chain (data t) ! i = chain (data t ! i)"
    using assms by simp
  ultimately show ?thesis
    using assms by (simp add: entries_def mset_concat_update)
qed

lemma entries_mem:
  "e \<in> set (entries t) \<longleftrightarrow> (\<exists>i<length (data t). e \<in> set (chain (data t ! i)))"
proof -
  have "e \<in> set (entries t) \<longleftrightarrow> (\<exists>c\<in>set (data t). e \<in> set (chain c))"
    by (auto simp: entries_def)
  also have "\<dots> \<longleftrightarrow> (\<exists>i<length (data t). e \<in> set (chain (data t ! i)))"
    by (metis in_set_conv_nth)
  finally show ?thesis .
qed

lemma placed_iff:
  "placed t \<longleftrightarrow>
   (\<forall>i<length (data t). \<forall>e\<in>set (chain (data t ! i)). hash_function t (fst e) = Inr (int i))"
  by (auto simp: placed_def list_all_iff)

lemma placed_bucket:
  assumes "wf_table t" and "placed t" and "i < length (data t)"
    and "e \<in> set (chain (data t ! i))"
  shows "bucket t (fst e) = i"
proof -
  have "hash_function t (fst e) = Inr (int i)"
    using assms(2-4) by (simp add: placed_iff)
  moreover have "hash_function t (fst e) = Inr (int (bucket t (fst e)))"
    using assms(1) by (simp add: hash_function_bucket wf_table_def)
  ultimately show ?thesis by simp
qed

lemma entry_in_bucket:
  assumes "wf_table t" and "placed t" and "e \<in> set (entries t)"
  shows "e \<in> set (chain (data t ! bucket t (fst e)))"
proof -
  from assms(3) obtain i where i: "i < length (data t)" "e \<in> set (chain (data t ! i))"
    by (auto simp: entries_mem)
  with assms(1,2) have "bucket t (fst e) = i" by (rule placed_bucket)
  with i show ?thesis by simp
qed

lemma absent_in_table:
  assumes "wf_table t" and "placed t" and "map_of (chain (data t ! bucket t nm)) nm = None"
  shows "nm \<notin> fst ` set (entries t)"
proof
  assume "nm \<in> fst ` set (entries t)"
  then obtain e where e: "e \<in> set (entries t)" "fst e = nm" by auto
  with assms(1,2) have "e \<in> set (chain (data t ! bucket t nm))"
    using entry_in_bucket by blast
  with e(2) have "nm \<in> fst ` set (chain (data t ! bucket t nm))" by force
  with assms(3) show False by (simp add: map_of_eq_None_iff)
qed

lemma entries_update_set:
  assumes "i < length (data t)"
  shows "set (entries (t\<lparr>data := (data t)[i := Some (Node k a (data t ! i))]\<rparr>)) =
         insert (k, a) (set (entries t))"
proof -
  have "mset (entries (t\<lparr>data := (data t)[i := Some (Node k a (data t ! i))]\<rparr>)) =
        mset ((k, a) # entries t)"
    using assms by (simp add: entries_update)
  then have "set (entries (t\<lparr>data := (data t)[i := Some (Node k a (data t ! i))]\<rparr>)) =
        set ((k, a) # entries t)"
    by (rule mset_eq_setD)
  then show ?thesis by simp
qed

lemma entries_update_distinct:
  assumes "i < length (data t)"
  shows "distinct (map f (entries (t\<lparr>data := (data t)[i := Some (Node k a (data t ! i))]\<rparr>))) \<longleftrightarrow>
         distinct (map f ((k, a) # entries t))"
proof -
  have "mset (map f (entries (t\<lparr>data := (data t)[i := Some (Node k a (data t ! i))]\<rparr>))) =
        mset (map f ((k, a) # entries t))"
    using assms by (simp add: entries_update)
  then show ?thesis by (rule mset_eq_imp_distinct_iff)
qed

lemma table_inv_init:
  assumes "HashTable_init arg = Inr t"
  shows "table_inv h t"
proof -
  define n where "n = (case arg of None \<Rightarrow> 10 | Some s \<Rightarrow> s)"
  from assms have n: "0 < n" and t: "t = \<lparr>size_ht = n, data = replicate (nat n) None\<rparr>"
    by (auto simp: HashTable_init_def n_def Let_def split: if_splits)
  have "entries t = []"
    by (simp add: t entries_def)
  moreover have "wf_table t"
    using n by (simp add: t wf_table_def)
  moreover have "placed t"
    by (simp add: t placed_iff)
  ultimately show ?thesis by (simp add: table_inv_def)
qed

lemma table_inv_update:
  assumes "table_inv h t"
  shows "table_inv (h[a := c]) t"
  using assms by (simp add: table_inv_def)

lemma placed_update:
  assumes "wf_table t" and "placed t"
  shows "placed (t\<lparr>data := (data t)[bucket t nm := Some (Node nm a (data t ! bucket t nm))]\<rparr>)"
proof -
  let ?b = "bucket t nm"
  let ?t = "t\<lparr>data := (data t)[?b := Some (Node nm a (data t ! ?b))]\<rparr>"
  have hf: "hash_function ?t k = hash_function t k" for k
    by (simp add: hash_function_def)
  have nm: "hash_function t nm = Inr (int ?b)"
    using assms(1) by (simp add: hash_function_bucket wf_table_def)
  have "hash_function ?t (fst e) = Inr (int i)"
    if "i < length (data ?t)" and "e \<in> set (chain (data ?t ! i))" for i e
  proof (cases "i = ?b")
    case True
    with that have "e = (nm, a) \<or> e \<in> set (chain (data t ! i))" by auto
    then show ?thesis
    proof
      assume "e = (nm, a)"
      with True nm show ?thesis by (simp add: hf)
    next
      assume "e \<in> set (chain (data t ! i))"
      with assms(2) that(1) show ?thesis by (simp add: hf placed_iff)
    qed
  next
    case False
    with that have "e \<in> set (chain (data t ! i))" by simp
    with assms(2) that(1) show ?thesis by (simp add: hf placed_iff)
  qed
  then show ?thesis unfolding placed_iff by blast
qed

lemma table_inv_new:
  assumes "table_inv h t" and "map_of (chain (data t ! bucket t nm)) nm = None"
  shows "table_inv (h @ [c])
           (t\<lparr>data := (data t)[bucket t nm := Some (Node nm (length h) (data t ! bucket t nm))]\<rparr>)"
proof -
  let ?b = "bucket t nm"
  let ?t = "t\<lparr>data := (data t)[?b := Some (Node nm (length h) (data t ! ?b))]\<rparr>"
  from assms(1) have wf: "wf_table t" and pl: "placed t"
    and dk: "distinct (map fst (entries t))" and da: "distinct (map snd (entries t))"
    and va: "\<forall>e\<in>set (entries t). snd e < length h"
    by (simp_all add: table_inv_def list_all_iff)
  have lt: "?b < length (data t)" using wf by (rule bucket_less)
  have "wf_table ?t" using wf by (simp add: wf_table_def)
  moreover have "placed ?t" using wf pl by (rule placed_update)
  moreover have "distinct (map fst (entries ?t))"
    using absent_in_table [OF wf pl assms(2)] dk by (simp add: entries_update_distinct [OF lt])
  moreover have "length h \<notin> snd ` set (entries t)" using va by auto
  then have "distinct (map snd (entries ?t))"
    using da by (simp add: entries_update_distinct [OF lt])
  moreover have "\<forall>e\<in>set (entries ?t). snd e < length (h @ [c])"
    using va by (auto simp: entries_update_set [OF lt])
  ultimately show ?thesis by (simp add: table_inv_def list_all_iff)
qed

lemma table_inv_insert:
  assumes "table_inv h t" and "insert_ht h t nm num = Inr (h', t')"
  shows "table_inv h' t'"
proof -
  from assms(1) have wf: "wf_table t" by (simp add: table_inv_def)
  show ?thesis
  proof (cases "map_of (chain (data t ! bucket t nm)) nm")
    case None
    with assms(2) have "h' = h @ [Contact_init nm num]"
      and "t' = t\<lparr>data := (data t)[bucket t nm := Some (Node nm (length h) (data t ! bucket t nm))]\<rparr>"
      by (simp_all add: insert_ht_wf [OF wf])
    with assms(1) None show ?thesis by (simp add: table_inv_new)
  next
    case (Some a)
    with assms(2) have "h' = h[a := (h ! a)\<lparr>number := num\<rparr>]" and "t' = t"
      by (simp_all add: insert_ht_wf [OF wf])
    with assms(1) show ?thesis by (simp add: table_inv_update)
  qed
qed

lemma insert_ht_total:
  assumes "wf_table t"
  shows "\<exists>s. insert_ht h t nm num = Inr s"
  by (simp add: insert_ht_wf [OF assms])

section \<open>The hash function and the constructor\<close>

text \<open>
  C4 (hash function contract). On a table of positive size, \<open>hash_function\<close> raises nothing
  and returns the sum of the character codes of the key's string form, modulo the size;
  the result is at least 0 and less than the size; it is the same for every table of that
  size and every key of that string form.
\<close>

theorem hash_function_contract:
  assumes "0 < size_ht t"
  shows "hash_function t key = Inr ((\<Sum>c\<leftarrow>py_str key. py_ord c) mod size_ht t) \<and>
         0 \<le> (\<Sum>c\<leftarrow>py_str key. py_ord c) mod size_ht t \<and>
         (\<Sum>c\<leftarrow>py_str key. py_ord c) mod size_ht t < size_ht t \<and>
         (\<forall>t' key'. size_ht t' = size_ht t \<and> py_str key' = py_str key \<longrightarrow>
            hash_function t' key' = hash_function t key)"
proof -
  let ?i = "(\<Sum>c\<leftarrow>py_str key. py_ord c) mod size_ht t"
  have "hash_function t key = Inr ?i"
    using assms by (simp add: hash_function_def py_sum_sum_list)
  moreover have "0 \<le> ?i"
    using assms by (rule pos_mod_sign)
  moreover have "?i < size_ht t"
    using assms by (rule pos_mod_bound)
  moreover have "\<forall>t' key'. size_ht t' = size_ht t \<and> py_str key' = py_str key \<longrightarrow>
      hash_function t' key' = hash_function t key"
    by (simp add: hash_function_def)
  ultimately show ?thesis by blast
qed

theorem hash_function_contract_witness:
  "0 < size_ht table10 \<and> hash_function table10 (PStr ''Amy'') = Inr 5 \<and>
   hash_function table10 (PStr ''May'') = Inr 5 \<and>
   hash_function table10 (PInt 123) = hash_function table10 (PStr ''123'')"
proof -
  have pos: "0 < size_ht table10" by (simp add: table10_def)
  have amy: "(\<Sum>c\<leftarrow>py_str (PStr ''Amy''). py_ord c) mod size_ht table10 = 5"
    by (simp add: py_ord_def table10_def)
  have may: "(\<Sum>c\<leftarrow>py_str (PStr ''May''). py_ord c) mod size_ht table10 = 5"
    by (simp add: py_ord_def table10_def)
  have str: "py_str (PInt 123) = py_str (PStr ''123'')"
    by (simp add: str_nat.simps digit_char_def)
  show ?thesis
    using pos hash_function_contract [OF pos, of "PStr ''Amy''"]
      hash_function_contract [OF pos, of "PStr ''May''"]
      hash_function_contract [OF pos, of "PStr ''123''"] amy may str
    by simp
qed

text \<open>
  C6 (construction guard). \<open>HashTable.__init__\<close> with a size of 0 or less raises
  \<open>ValueError\<close> and returns no table; with a positive size it returns the table of that
  size, every bucket empty; without a size it builds the table of size 10.
\<close>

theorem HashTable_init_guard:
  "(c \<le> 0 \<longrightarrow> HashTable_init (Some c) = Inl (ValueError ''HashTable size must be positive.'')) \<and>
   (0 < c \<longrightarrow> HashTable_init (Some c) = Inr \<lparr>size_ht = c, data = replicate (nat c) None\<rparr>) \<and>
   HashTable_init None = Inr \<lparr>size_ht = 10, data = replicate 10 None\<rparr>"
  by (simp add: HashTable_init_def)

theorem HashTable_init_guard_witness:
  "HashTable_init (Some 0) = Inl (ValueError ''HashTable size must be positive.'') \<and>
   HashTable_init (Some (- 1)) = Inl (ValueError ''HashTable size must be positive.'') \<and>
   HashTable_init (Some 3) = Inr \<lparr>size_ht = 3, data = [None, None, None]\<rparr> \<and>
   HashTable_init None = Inr table10"
  using HashTable_init_guard [of 0] HashTable_init_guard [of "- 1"] HashTable_init_guard [of 3]
  by (simp add: table10_def numeral_3_eq_3)

section \<open>Tables built by the constructor and insertions\<close>

lemma script_run: "inserts [] table10 script_ops = Inr (script_heap, script_table)"
  by code_simp

lemma chain_subset_entries:
  "i < length (data t) \<Longrightarrow> set (chain (data t ! i)) \<subseteq> set (entries t)"
  by (auto simp: entries_mem)

lemma map_of_find: "map_of xs k = map_option snd (find (\<lambda>e. fst e = k) xs)"
  by (induction xs) auto

lemma insert_ht_keys:
  assumes "table_inv h t" and "insert_ht h t nm num = Inr (h', t')"
  shows "fst ` set (entries t') = insert nm (fst ` set (entries t))"
proof -
  from assms(1) have wf: "wf_table t" by (simp add: table_inv_def)
  have lt: "bucket t nm < length (data t)" using wf by (rule bucket_less)
  show ?thesis
  proof (cases "map_of (chain (data t ! bucket t nm)) nm")
    case None
    with assms(2) have
      "t' = t\<lparr>data := (data t)[bucket t nm := Some (Node nm (length h) (data t ! bucket t nm))]\<rparr>"
      by (simp add: insert_ht_wf [OF wf])
    then show ?thesis by (simp add: entries_update_set [OF lt])
  next
    case (Some a)
    then have "(nm, a) \<in> set (chain (data t ! bucket t nm))" by (rule map_of_SomeD)
    with chain_subset_entries [OF lt] have "(nm, a) \<in> set (entries t)" by blast
    then have "nm \<in> fst ` set (entries t)" by force
    moreover from Some assms(2) have "t' = t" by (simp add: insert_ht_wf [OF wf])
    ultimately show ?thesis by auto
  qed
qed

lemma inserts_inv:
  assumes "table_inv h t"
  shows "\<exists>h' t'. inserts h t ops = Inr (h', t') \<and> table_inv h' t' \<and>
           fst ` set (entries t') = fst ` set (entries t) \<union> fst ` set ops"
  using assms
proof (induction ops arbitrary: h t)
  case Nil
  then show ?case by simp
next
  case (Cons x ops)
  from Cons.prems have wf: "wf_table t" by (simp add: table_inv_def)
  obtain h1 t1 where 1: "insert_ht h t (fst x) (snd x) = Inr (h1, t1)"
    using insert_ht_total [OF wf] by fastforce
  with Cons.prems have inv1: "table_inv h1 t1" by (rule table_inv_insert)
  from Cons.prems 1 have keys1: "fst ` set (entries t1) = insert (fst x) (fst ` set (entries t))"
    by (rule insert_ht_keys)
  from Cons.IH [OF inv1] obtain h' t' where
    "inserts h1 t1 ops = Inr (h', t')" and "table_inv h' t'"
    and "fst ` set (entries t') = fst ` set (entries t1) \<union> fst ` set ops"
    by blast
  with 1 keys1 show ?case by auto
qed

lemma absent_search:
  assumes "wf_table t" and "nm \<notin> fst ` set (entries t)"
  shows "search t nm = Inr None"
proof -
  have "bucket t nm < length (data t)" using assms(1) by (rule bucket_less)
  then have "set (chain (data t ! bucket t nm)) \<subseteq> set (entries t)"
    by (rule chain_subset_entries)
  with assms(2) have "nm \<notin> fst ` set (chain (data t ! bucket t nm))" by blast
  then have "map_of (chain (data t ! bucket t nm)) nm = None"
    by (simp add: map_of_eq_None_iff)
  then show ?thesis by (simp add: search_wf [OF assms(1)])
qed

lemma never_inserted_search:
  assumes "HashTable_init arg = Inr t0" and "inserts h0 t0 ops = Inr (h, t)"
    and "nm \<notin> fst ` set ops"
  shows "search t nm = Inr None"
proof -
  have inv0: "table_inv h0 t0" using assms(1) by (rule table_inv_init)
  have e0: "entries t0 = []"
    using assms(1) by (auto simp: HashTable_init_def Let_def entries_def split: if_splits)
  from inserts_inv [OF inv0, of ops] assms(2) have "table_inv h t"
    and "fst ` set (entries t) = fst ` set (entries t0) \<union> fst ` set ops" by auto
  with e0 assms(3) have "wf_table t" and "nm \<notin> fst ` set (entries t)"
    by (simp_all add: table_inv_def)
  then show ?thesis by (rule absent_search)
qed

lemma table10_init: "HashTable_init (Some 10) = Inr table10"
  by (simp add: HashTable_init_def table10_def)

lemma script_inv: "table_inv script_heap script_table"
proof -
  have "table_inv [] table10" using table10_init by (rule table_inv_init)
  from inserts_inv [OF this, of script_ops] show ?thesis by (simp add: script_run)
qed

section \<open>Search\<close>

text \<open>
  C5 (search semantics and absence law). On a table whose size is positive and is the
  length of \<open>data\<close>, \<open>search\<close> raises nothing; it reads the chain of the bucket that
  \<open>hash_function\<close> gives the name and returns the Contact of the first entry of that chain
  whose key equals the name, and \<open>None\<close> when the chain has no such entry. On a table
  built by the constructor and filled by insertions, a name that was never inserted is
  answered by \<open>None\<close>. \<open>search\<close> returns no table and no store: it changes neither.
\<close>

theorem search_semantics:
  assumes "wf_table t"
  shows "hash_function t nm = Inr (int (bucket t nm)) \<and>
         search t nm =
           Inr (map_option snd (find (\<lambda>e. fst e = nm) (chain (data t ! bucket t nm)))) \<and>
         (nm \<notin> fst ` set (chain (data t ! bucket t nm)) \<longrightarrow> search t nm = Inr None) \<and>
         (\<forall>arg t0 h0 ops h. HashTable_init arg = Inr t0 \<and> inserts h0 t0 ops = Inr (h, t) \<and>
            nm \<notin> fst ` set ops \<longrightarrow> search t nm = Inr None)"
proof -
  have "hash_function t nm = Inr (int (bucket t nm))"
    using assms by (simp add: hash_function_bucket wf_table_def)
  moreover have s: "search t nm =
      Inr (map_option snd (find (\<lambda>e. fst e = nm) (chain (data t ! bucket t nm))))"
    using assms by (simp add: search_wf map_of_find)
  moreover have "search t nm = Inr None" if "nm \<notin> fst ` set (chain (data t ! bucket t nm))"
    using that assms by (simp add: search_wf map_of_eq_None_iff)
  moreover have "search t nm = Inr None"
    if "HashTable_init arg = Inr t0 \<and> inserts h0 t0 ops = Inr (h, t) \<and> nm \<notin> fst ` set ops"
    for arg t0 h0 ops h
    using that never_inserted_search by blast
  ultimately show ?thesis by blast
qed

theorem search_semantics_witness:
  "wf_table script_table \<and>
   HashTable_init (Some 10) = Inr table10 \<and>
   inserts [] table10 script_ops = Inr (script_heap, script_table) \<and>
   search script_table (PStr ''Amy'') = Inr (Some 2) \<and>
   search script_table (PStr ''May'') = Inr (Some 3) \<and>
   search script_table (PStr ''John'') = Inr (Some 0) \<and>
   number (script_heap ! 0) = PStr ''909-876-1234'' \<and>
   search script_table (PStr ''Chris'') = Inr None"
proof -
  have wf: "wf_table script_table"
    using script_inv by (simp add: table_inv_def)
  have b: "bucket script_table (PStr ''Amy'') = 5" "bucket script_table (PStr ''May'') = 5"
    "bucket script_table (PStr ''John'') = 9"
    by (simp_all add: bucket_def script_table_def py_ord_def)
  have c: "PStr ''Chris'' \<notin> fst ` set script_ops"
    by (simp add: script_ops_def)
  have "search script_table (PStr ''Amy'') = Inr (Some 2)"
    using search_semantics [OF wf, of "PStr ''Amy''"] by (simp add: b) (simp add: script_table_def)
  moreover have "search script_table (PStr ''May'') = Inr (Some 3)"
    using search_semantics [OF wf, of "PStr ''May''"] by (simp add: b) (simp add: script_table_def)
  moreover have "search script_table (PStr ''John'') = Inr (Some 0)"
    using search_semantics [OF wf, of "PStr ''John''"] by (simp add: b) (simp add: script_table_def)
  moreover have "search script_table (PStr ''Chris'') = Inr None"
    using search_semantics [OF wf, of "PStr ''Chris''"] table10_init script_run c by blast
  moreover have "number (script_heap ! 0) = PStr ''909-876-1234''"
    by (simp add: script_heap_def)
  ultimately show ?thesis using wf table10_init script_run by simp
qed

section \<open>The dump\<close>

lemma parts_loop_chain: "parts_loop h c parts = parts @ map (render_entry h) (chain c)"
  by (induction h c parts rule: parts_loop.induct)
    (simp_all add: render_entry_def Contact_str_def)

lemma join_concat: "join sep (x # xs) = x @ concat (map (\<lambda>y. sep @ y) xs)"
  by (induction xs arbitrary: x) simp_all

lemma print_line:
  "(case node of
      None \<Rightarrow> ''Index '' @ str_nat i @ '': Empty''
    | Some _ \<Rightarrow> ''Index '' @ str_nat i @ '': '' @ join '' '' (parts_loop h node [])) =
   ''Index '' @ str_nat i @ '': '' @
   (case chain node of
      [] \<Rightarrow> ''Empty''
    | e # es \<Rightarrow> render_entry h e @ concat (map (\<lambda>x. '' '' @ render_entry h x) es))"
proof (cases node)
  case None
  then show ?thesis by simp
next
  case (Some n)
  then show ?thesis by (cases n) (simp add: parts_loop_chain join_concat comp_def)
qed

lemma print_rows_dump:
  assumes "\<forall>j\<in>set js. j < length (data t)"
  shows "print_rows h t js = (map (dump_line h t) js, None)"
  using assms
proof (induction js)
  case Nil
  then show ?case by simp
next
  case (Cons i js)
  then have "list_getitem (data t) (int i) = Inr (data t ! i)"
    by (simp add: list_getitem_nat)
  moreover from Cons have "print_rows h t js = (map (dump_line h t) js, None)" by simp
  ultimately show ?case
    by (simp add: print_line dump_line_def)
qed

lemma print_table_dump:
  assumes "wf_table t"
  shows "print_table h t = (map (dump_line h t) [0..<nat (size_ht t)], None)"
proof -
  from assms have "nat (size_ht t) = length (data t)" by (auto simp: wf_table_def)
  then show ?thesis by (simp add: print_table_def print_rows_dump)
qed

text \<open>
  C7 (dump format). On a table whose size is positive and is the length of \<open>data\<close>,
  \<open>print_table\<close> raises nothing and prints one line for each index from 0 to the size minus
  one, in that order. The line of index \<open>i\<close> is the specification's: \<open>Index i: Empty\<close> for
  an empty bucket, and otherwise \<open>Index i: \<close> followed by the entries of the chain from
  its head, each rendered as \<open>- name: number\<close>, with one space between two entries. A
  table fresh from the constructor prints only \<open>Empty\<close> lines. \<open>print_table\<close> returns no
  table and no store: it changes neither.
\<close>

theorem print_table_format:
  assumes "wf_table t"
  shows "print_table h t = (map (dump_line h t) [0..<nat (size_ht t)], None) \<and>
         length (fst (print_table h t)) = nat (size_ht t) \<and>
         (\<forall>i<nat (size_ht t). fst (print_table h t) ! i = dump_line h t i) \<and>
         (\<forall>i<nat (size_ht t). data t ! i = None \<longrightarrow>
            fst (print_table h t) ! i = ''Index '' @ str_nat i @ '': Empty'') \<and>
         (\<forall>i<nat (size_ht t). \<forall>k a nx. data t ! i = Some (Node k a nx) \<longrightarrow>
            fst (print_table h t) ! i =
              ''Index '' @ str_nat i @ '': - '' @ py_str (name (h ! a)) @ '': '' @
              py_str (number (h ! a)) @
              concat (map (\<lambda>e. '' - '' @ py_str (name (h ! snd e)) @ '': '' @
                             py_str (number (h ! snd e))) (chain nx))) \<and>
         (\<forall>arg. HashTable_init arg = Inr t \<longrightarrow>
            print_table h t =
              (map (\<lambda>i. ''Index '' @ str_nat i @ '': Empty'') [0..<nat (size_ht t)], None))"
proof -
  have dump: "print_table h t = (map (dump_line h t) [0..<nat (size_ht t)], None)"
    using assms by (rule print_table_dump)
  have line: "fst (print_table h t) ! i = dump_line h t i" if "i < nat (size_ht t)" for i
    using that by (simp add: dump)
  have empty: "fst (print_table h t) ! i = ''Index '' @ str_nat i @ '': Empty''"
    if "i < nat (size_ht t)" and "data t ! i = None" for i
    using that by (simp add: line dump_line_def)
  have full: "fst (print_table h t) ! i =
      ''Index '' @ str_nat i @ '': - '' @ py_str (name (h ! a)) @ '': '' @
      py_str (number (h ! a)) @
      concat (map (\<lambda>e. '' - '' @ py_str (name (h ! snd e)) @ '': '' @
                     py_str (number (h ! snd e))) (chain nx))"
    if "i < nat (size_ht t)" and "data t ! i = Some (Node k a nx)" for i k a nx
    using that by (simp add: line dump_line_def render_entry_def)
  have fresh: "print_table h t =
      (map (\<lambda>i. ''Index '' @ str_nat i @ '': Empty'') [0..<nat (size_ht t)], None)"
    if "HashTable_init arg = Inr t" for arg
  proof -
    from that have "data t = replicate (nat (size_ht t)) None"
      by (auto simp: HashTable_init_def Let_def split: if_splits)
    then have "\<forall>i<nat (size_ht t). data t ! i = None"
      by (metis nth_replicate)
    then have "map (dump_line h t) [0..<nat (size_ht t)] =
        map (\<lambda>i. ''Index '' @ str_nat i @ '': Empty'') [0..<nat (size_ht t)]"
      by (simp add: dump_line_def)
    with dump show ?thesis by simp
  qed
  from dump have "length (fst (print_table h t)) = nat (size_ht t)" by simp
  with dump line empty full fresh show ?thesis by blast
qed

theorem print_table_format_witness:
  "wf_table script_table \<and> wf_table table10 \<and> HashTable_init (Some 10) = Inr table10 \<and>
   print_table script_heap script_table =
     ([''Index 0: Empty'', ''Index 1: Empty'', ''Index 2: Empty'', ''Index 3: Empty'',
       ''Index 4: Empty'', ''Index 5: - May: 222-333-1111 - Amy: 111-222-3333'',
       ''Index 6: Empty'', ''Index 7: - Rebecca: 111-555-0002'', ''Index 8: Empty'',
       ''Index 9: - John: 909-876-1234''], None) \<and>
   print_table [] table10 =
     ([''Index 0: Empty'', ''Index 1: Empty'', ''Index 2: Empty'', ''Index 3: Empty'',
       ''Index 4: Empty'', ''Index 5: Empty'', ''Index 6: Empty'', ''Index 7: Empty'',
       ''Index 8: Empty'', ''Index 9: Empty''], None)"
proof -
  have wf: "wf_table script_table"
    using script_inv by (simp add: table_inv_def)
  have wf10: "wf_table table10"
    by (simp add: wf_table_def table10_def)
  have 1: "map (dump_line script_heap script_table) [0..<nat (size_ht script_table)] =
     [''Index 0: Empty'', ''Index 1: Empty'', ''Index 2: Empty'', ''Index 3: Empty'',
       ''Index 4: Empty'', ''Index 5: - May: 222-333-1111 - Amy: 111-222-3333'',
       ''Index 6: Empty'', ''Index 7: - Rebecca: 111-555-0002'', ''Index 8: Empty'',
       ''Index 9: - John: 909-876-1234'']"
    by code_simp
  have 2: "map (\<lambda>i. ''Index '' @ str_nat i @ '': Empty'') [0..<nat (size_ht table10)] =
     [''Index 0: Empty'', ''Index 1: Empty'', ''Index 2: Empty'', ''Index 3: Empty'',
       ''Index 4: Empty'', ''Index 5: Empty'', ''Index 6: Empty'', ''Index 7: Empty'',
       ''Index 8: Empty'', ''Index 9: Empty'']"
    by code_simp
  have 3: "print_table script_heap script_table =
      (map (dump_line script_heap script_table) [0..<nat (size_ht script_table)], None)"
    using print_table_format [OF wf, of script_heap] by blast
  have 4: "print_table [] table10 =
      (map (\<lambda>i. ''Index '' @ str_nat i @ '': Empty'') [0..<nat (size_ht table10)], None)"
    using print_table_format [OF wf10, of "[]"] table10_init by blast
  show ?thesis
    unfolding 3 4 1 2 using wf wf10 table10_init by simp
qed

section \<open>Insertion\<close>

lemma bucket_data_update: "bucket (t\<lparr>data := d\<rparr>) key = bucket t key"
  by (simp add: bucket_def)

lemma wf_table_data_update:
  "wf_table t \<Longrightarrow> wf_table (t\<lparr>data := (data t)[i := x]\<rparr>)"
  by (simp add: wf_table_def)

lemma search_None_iff:
  "wf_table t \<Longrightarrow> search t nm = Inr None \<longleftrightarrow> map_of (chain (data t ! bucket t nm)) nm = None"
  by (simp add: search_wf)

lemma search_Some_iff:
  "wf_table t \<Longrightarrow>
   search t nm = Inr (Some a) \<longleftrightarrow> map_of (chain (data t ! bucket t nm)) nm = Some a"
  by (simp add: search_wf)

lemma insert_ht_absent:
  assumes "wf_table t" and "search t nm = Inr None"
  shows "insert_ht h t nm num =
    Inr (h @ [Contact_init nm num],
         t\<lparr>data := (data t)[bucket t nm := Some (Node nm (length h) (data t ! bucket t nm))]\<rparr>)"
  using assms by (simp add: insert_ht_wf search_None_iff)

lemma insert_ht_present:
  assumes "wf_table t" and "search t nm = Inr (Some a)"
  shows "insert_ht h t nm num = Inr (h[a := (h ! a)\<lparr>number := num\<rparr>], t)"
  using assms by (simp add: insert_ht_wf search_Some_iff)

lemma search_new_head:
  assumes "wf_table t"
  shows "search (t\<lparr>data := (data t)[bucket t nm := Some (Node nm a (data t ! bucket t nm))]\<rparr>) nm =
         Inr (Some a)"
proof -
  let ?t = "t\<lparr>data := (data t)[bucket t nm := Some (Node nm a (data t ! bucket t nm))]\<rparr>"
  have "wf_table ?t" using assms by (rule wf_table_data_update)
  moreover have "bucket t nm < length (data t)" using assms by (rule bucket_less)
  ultimately show ?thesis by (simp add: search_wf bucket_data_update)
qed

lemma present_entry:
  assumes "wf_table t" and "search t nm = Inr (Some a)"
  shows "(nm, a) \<in> set (entries t)"
proof -
  from assms have "map_of (chain (data t ! bucket t nm)) nm = Some a"
    by (simp add: search_Some_iff)
  then have "(nm, a) \<in> set (chain (data t ! bucket t nm))" by (rule map_of_SomeD)
  moreover have "bucket t nm < length (data t)" using assms(1) by (rule bucket_less)
  ultimately show ?thesis using chain_subset_entries by blast
qed

lemma present_valid:
  assumes "table_inv h t" and "search t nm = Inr (Some a)"
  shows "a < length h"
proof -
  from assms have "(nm, a) \<in> set (entries t)" by (simp add: table_inv_def present_entry)
  with assms(1) show ?thesis by (auto simp: table_inv_def list_all_iff)
qed

lemma count_key:
  "distinct (map fst xs) \<Longrightarrow> k \<in> fst ` set xs \<Longrightarrow> length (filter (\<lambda>e. fst e = k) xs) = 1"
proof (induction xs)
  case Nil
  then show ?case by simp
next
  case (Cons x xs)
  show ?case
  proof (cases "fst x = k")
    case True
    from Cons.prems(1) have "fst x \<notin> fst ` set xs" by simp
    with True have "\<forall>e\<in>set xs. fst e \<noteq> k" by blast
    then have "filter (\<lambda>e. fst e = k) xs = []"
      by (simp add: filter_empty_conv)
    with True show ?thesis by simp
  next
    case False
    with Cons show ?thesis by auto
  qed
qed

lemma head_insertion_general:
  assumes "wf_table t" and "nm \<notin> fst ` set (entries t)"
  shows "\<exists>t'. insert_ht h t nm num = Inr (h @ [Contact_init nm num], t') \<and>
           data t' ! bucket t nm = Some (Node nm (length h) (data t ! bucket t nm)) \<and>
           chain (data t' ! bucket t nm) = (nm, length h) # chain (data t ! bucket t nm)"
proof -
  have "search t nm = Inr None" using assms by (rule absent_search)
  with assms(1) have "insert_ht h t nm num =
    Inr (h @ [Contact_init nm num],
         t\<lparr>data := (data t)[bucket t nm := Some (Node nm (length h) (data t ! bucket t nm))]\<rparr>)"
    by (rule insert_ht_absent)
  moreover have "bucket t nm < length (data t)" using assms(1) by (rule bucket_less)
  ultimately show ?thesis by simp
qed

lemma amy_may:
  "\<exists>h1 t1 h2 t2.
     insert_ht h0 table10 (PStr ''Amy'') n1 = Inr (h1, t1) \<and>
     insert_ht h1 t1 (PStr ''May'') n2 = Inr (h2, t2) \<and>
     hash_function t2 (PStr ''Amy'') = Inr 5 \<and> hash_function t2 (PStr ''May'') = Inr 5 \<and>
     data t2 ! 5 =
       Some (Node (PStr ''May'') (Suc (length h0)) (Some (Node (PStr ''Amy'') (length h0) None))) \<and>
     print_table h2 t2 =
       ([''Index 0: Empty'', ''Index 1: Empty'', ''Index 2: Empty'', ''Index 3: Empty'',
         ''Index 4: Empty'', ''Index 5: - May: '' @ py_str n2 @ '' - Amy: '' @ py_str n1,
         ''Index 6: Empty'', ''Index 7: Empty'', ''Index 8: Empty'', ''Index 9: Empty''], None)"
proof -
  define h1 where "h1 = h0 @ [Contact_init (PStr ''Amy'') n1]"
  define t1 where "t1 = \<lparr>size_ht = 10,
    data = [None, None, None, None, None, Some (Node (PStr ''Amy'') (length h0) None),
            None, None, None, None]\<rparr>"
  define h2 where "h2 = h1 @ [Contact_init (PStr ''May'') n2]"
  define t2 where "t2 = \<lparr>size_ht = 10,
    data = [None, None, None, None, None,
            Some (Node (PStr ''May'') (Suc (length h0)) (Some (Node (PStr ''Amy'') (length h0) None))),
            None, None, None, None]\<rparr>"
  have 1: "insert_ht h0 table10 (PStr ''Amy'') n1 = Inr (h1, t1)"
    by (simp add: insert_ht_def hash_function_def py_sum_def py_ord_def table10_def
        list_getitem_def list_setitem_def h1_def t1_def numeral_nat)
  have 2: "insert_ht h1 t1 (PStr ''May'') n2 = Inr (h2, t2)"
    by (simp add: insert_ht_def hash_function_def py_sum_def py_ord_def
        list_getitem_def list_setitem_def h1_def h2_def t1_def t2_def numeral_nat)
  have 3: "hash_function t2 (PStr ''Amy'') = Inr 5" "hash_function t2 (PStr ''May'') = Inr 5"
    by (simp_all add: hash_function_def py_sum_def py_ord_def t2_def)
  have 4: "data t2 ! 5 =
       Some (Node (PStr ''May'') (Suc (length h0)) (Some (Node (PStr ''Amy'') (length h0) None)))"
    by (simp add: t2_def numeral_nat)
  have wf: "wf_table t2" by (simp add: wf_table_def t2_def)
  have up: "[0..<nat (size_ht t2)] = [0, 1, 2, 3, 4, 5, 6, 7, 8, 9]"
    by (simp add: t2_def) code_simp
  have s: "str_nat 0 = ''0''" "str_nat 1 = ''1''" "str_nat 2 = ''2''" "str_nat 3 = ''3''"
    "str_nat 4 = ''4''" "str_nat 5 = ''5''" "str_nat 6 = ''6''" "str_nat 7 = ''7''"
    "str_nat 8 = ''8''" "str_nat 9 = ''9''" "str_nat (Suc 0) = ''1''"
    by (simp_all add: str_nat.simps digit_char_def)
  have c: "h2 ! length h0 = Contact_init (PStr ''Amy'') n1"
    "h2 ! Suc (length h0) = Contact_init (PStr ''May'') n2"
    by (simp_all add: h2_def h1_def nth_append)
  have 5: "print_table h2 t2 =
       ([''Index 0: Empty'', ''Index 1: Empty'', ''Index 2: Empty'', ''Index 3: Empty'',
         ''Index 4: Empty'', ''Index 5: - May: '' @ py_str n2 @ '' - Amy: '' @ py_str n1,
         ''Index 6: Empty'', ''Index 7: Empty'', ''Index 8: Empty'', ''Index 9: Empty''], None)"
    unfolding print_table_dump [OF wf] up
    by (simp add: dump_line_def s t2_def render_entry_def c Contact_init_def)
  from 1 2 3 4 5 show ?thesis by blast
qed

lemma amy_may_sums:
  "py_sum (map py_ord (py_str (PStr ''Amy''))) = 295"
  "py_sum (map py_ord (py_str (PStr ''May''))) = 295"
  by (simp_all add: py_sum_def py_ord_def)

lemma after_insert:
  assumes "table_inv h t" and "insert_ht h t nm num = Inr (h1, t1)"
  shows "\<exists>a. search t1 nm = Inr (Some a) \<and> a < length h1 \<and>
           py_str (number (h1 ! a)) = py_str num \<and>
           (number (h1 ! a) = num \<or> number (h1 ! a) = PStr (py_str num))"
proof -
  from assms(1) have wf: "wf_table t" by (simp add: table_inv_def)
  show ?thesis
  proof (cases "map_of (chain (data t ! bucket t nm)) nm")
    case None
    with assms(2) have h1: "h1 = h @ [Contact_init nm num]"
      and t1: "t1 = t\<lparr>data := (data t)[bucket t nm := Some (Node nm (length h) (data t ! bucket t nm))]\<rparr>"
      by (simp_all add: insert_ht_wf [OF wf])
    have "search t1 nm = Inr (Some (length h))"
      unfolding t1 using wf by (rule search_new_head)
    then show ?thesis by (simp add: h1 Contact_init_def)
  next
    case (Some a)
    with assms(2) have h1: "h1 = h[a := (h ! a)\<lparr>number := num\<rparr>]" and t1: "t1 = t"
      by (simp_all add: insert_ht_wf [OF wf])
    from Some have s: "search t nm = Inr (Some a)" by (simp add: search_wf [OF wf])
    with assms(1) have "a < length h" by (rule present_valid)
    with s show ?thesis by (simp add: h1 t1)
  qed
qed

text \<open>
  C1 (head insertion). On a table whose size is positive and is the length of \<open>data\<close>,
  the insertion of a name that no entry of the table has raises nothing, allocates a
  new Contact and makes a new node the head of the bucket of the name, its \<open>next\<close> the
  head the bucket had. On \<open>HashTable(10)\<close>, inserting Amy and then May puts both in bucket
  5 (the character codes of both sum to 295), May at the head with Amy as its \<open>next\<close>, and the dump shows May before
  Amy on the line of index 5.
\<close>

theorem head_insertion:
  "(wf_table t \<and> nm \<notin> fst ` set (entries t) \<longrightarrow>
      (\<exists>t'. insert_ht h t nm num = Inr (h @ [Contact_init nm num], t') \<and>
            data t' ! bucket t nm = Some (Node nm (length h) (data t ! bucket t nm)) \<and>
            chain (data t' ! bucket t nm) = (nm, length h) # chain (data t ! bucket t nm))) \<and>
   HashTable_init (Some 10) = Inr table10 \<and>
   py_sum (map py_ord (py_str (PStr ''Amy''))) = 295 \<and>
   py_sum (map py_ord (py_str (PStr ''May''))) = 295 \<and>
   (\<exists>h1 t1 h2 t2.
     insert_ht h0 table10 (PStr ''Amy'') n1 = Inr (h1, t1) \<and>
     insert_ht h1 t1 (PStr ''May'') n2 = Inr (h2, t2) \<and>
     hash_function t2 (PStr ''Amy'') = Inr 5 \<and> hash_function t2 (PStr ''May'') = Inr 5 \<and>
     data t2 ! 5 =
       Some (Node (PStr ''May'') (Suc (length h0)) (Some (Node (PStr ''Amy'') (length h0) None))) \<and>
     print_table h2 t2 =
       ([''Index 0: Empty'', ''Index 1: Empty'', ''Index 2: Empty'', ''Index 3: Empty'',
         ''Index 4: Empty'', ''Index 5: - May: '' @ py_str n2 @ '' - Amy: '' @ py_str n1,
         ''Index 6: Empty'', ''Index 7: Empty'', ''Index 8: Empty'', ''Index 9: Empty''], None))"
  using head_insertion_general [of t nm h num] amy_may [of h0 n1 n2] table10_init amy_may_sums
  by blast

theorem head_insertion_witness:
  "wf_table script_table \<and> PStr ''Chris'' \<notin> fst ` set (entries script_table) \<and>
   (\<exists>t'. insert_ht script_heap script_table (PStr ''Chris'') (PStr ''555-000-1111'') =
          Inr (script_heap @ [\<lparr>name = PStr ''Chris'', number = PStr ''555-000-1111''\<rparr>], t') \<and>
        data t' ! 5 =
          Some (Node (PStr ''Chris'') 4
            (Some (Node (PStr ''May'') 3 (Some (Node (PStr ''Amy'') 2 None)))))) \<and>
   (\<exists>h1 t1 h2 t2.
     insert_ht [] table10 (PStr ''Amy'') (PStr ''111-222-3333'') = Inr (h1, t1) \<and>
     insert_ht h1 t1 (PStr ''May'') (PStr ''222-333-1111'') = Inr (h2, t2) \<and>
     data t2 ! 5 = Some (Node (PStr ''May'') 1 (Some (Node (PStr ''Amy'') 0 None))) \<and>
     print_table h2 t2 =
       ([''Index 0: Empty'', ''Index 1: Empty'', ''Index 2: Empty'', ''Index 3: Empty'',
         ''Index 4: Empty'', ''Index 5: - May: 222-333-1111 - Amy: 111-222-3333'',
         ''Index 6: Empty'', ''Index 7: Empty'', ''Index 8: Empty'', ''Index 9: Empty''], None))"
proof -
  have wf: "wf_table script_table"
    using script_inv by (simp add: table_inv_def)
  have c: "PStr ''Chris'' \<notin> fst ` set (entries script_table)"
    by (simp add: entries_def script_table_def)
  have b: "bucket script_table (PStr ''Chris'') = 5"
    by (simp add: bucket_def script_table_def py_ord_def)
  have d: "data script_table ! 5 = Some (Node (PStr ''May'') 3 (Some (Node (PStr ''Amy'') 2 None)))"
    by (simp add: script_table_def)
  have l: "length script_heap = 4"
    by (simp add: script_heap_def)
  have i: "Contact_init (PStr ''Chris'') (PStr ''555-000-1111'') =
      \<lparr>name = PStr ''Chris'', number = PStr ''555-000-1111''\<rparr>"
    by (simp add: Contact_init_def)
  show ?thesis
    using head_insertion [of script_table "PStr ''Chris''" script_heap "PStr ''555-000-1111''"
        "[]" "PStr ''111-222-3333''" "PStr ''222-333-1111''"] wf c
    by (simp add: b d l i, blast)
qed

text \<open>
  C2 (update law). On a table built by the constructor and insertions, the insertion of
  a name that \<open>search\<close> finds raises nothing and leaves the table as it is, with no new
  node and no new Contact: it writes the number into the Contact that \<open>search\<close> returns,
  which keeps its address and its name. After two insertions of one name, the second
  with another number, \<open>search\<close> returns a Contact whose number is the second one, and
  the table has exactly one entry with that name.
\<close>

theorem update_law:
  assumes "table_inv h t"
  shows "(\<forall>a. search t nm = Inr (Some a) \<longrightarrow>
            insert_ht h t nm num = Inr (h[a := (h ! a)\<lparr>number := num\<rparr>], t) \<and>
            a < length h \<and>
            number (h[a := (h ! a)\<lparr>number := num\<rparr>] ! a) = num \<and>
            name (h[a := (h ! a)\<lparr>number := num\<rparr>] ! a) = name (h ! a)) \<and>
         (\<exists>h1 t1 h2 a.
            insert_ht h t nm num1 = Inr (h1, t1) \<and> insert_ht h1 t1 nm num2 = Inr (h2, t1) \<and>
            length h2 = length h1 \<and> search t1 nm = Inr (Some a) \<and> a < length h2 \<and>
            number (h2 ! a) = num2 \<and>
            length (filter (\<lambda>e. fst e = nm) (entries t1)) = 1)"
proof -
  from assms have wf: "wf_table t" by (simp add: table_inv_def)
  have first: "insert_ht h t nm num = Inr (h[a := (h ! a)\<lparr>number := num\<rparr>], t) \<and>
      a < length h \<and> number (h[a := (h ! a)\<lparr>number := num\<rparr>] ! a) = num \<and>
      name (h[a := (h ! a)\<lparr>number := num\<rparr>] ! a) = name (h ! a)"
    if "search t nm = Inr (Some a)" for a
  proof -
    from assms that have "a < length h" by (rule present_valid)
    moreover from wf that
    have "insert_ht h t nm num = Inr (h[a := (h ! a)\<lparr>number := num\<rparr>], t)"
      by (rule insert_ht_present)
    ultimately show ?thesis by simp
  qed
  obtain h1 t1 where 1: "insert_ht h t nm num1 = Inr (h1, t1)"
    using insert_ht_total [OF wf] by fastforce
  with assms have inv1: "table_inv h1 t1" by (rule table_inv_insert)
  then have wf1: "wf_table t1" and dk: "distinct (map fst (entries t1))"
    by (simp_all add: table_inv_def)
  from after_insert [OF assms 1] obtain a where
    s: "search t1 nm = Inr (Some a)" and a: "a < length h1" by blast
  from wf1 s have 2: "insert_ht h1 t1 nm num2 = Inr (h1[a := (h1 ! a)\<lparr>number := num2\<rparr>], t1)"
    by (rule insert_ht_present)
  from wf1 s have "(nm, a) \<in> set (entries t1)" by (rule present_entry)
  then have "nm \<in> fst ` set (entries t1)" by force
  with dk have "length (filter (\<lambda>e. fst e = nm) (entries t1)) = 1" by (rule count_key)
  with 1 2 s a have "\<exists>h1 t1 h2 a.
      insert_ht h t nm num1 = Inr (h1, t1) \<and> insert_ht h1 t1 nm num2 = Inr (h2, t1) \<and>
      length h2 = length h1 \<and> search t1 nm = Inr (Some a) \<and> a < length h2 \<and>
      number (h2 ! a) = num2 \<and> length (filter (\<lambda>e. fst e = nm) (entries t1)) = 1"
    by (intro exI [of _ h1] exI [of _ t1] exI [of _ "h1[a := (h1 ! a)\<lparr>number := num2\<rparr>]"]
        exI [of _ a]) simp
  with first show ?thesis by blast
qed

theorem update_law_witness:
  "table_inv script_heap script_table \<and>
   search script_table (PStr ''Rebecca'') = Inr (Some 1) \<and>
   insert_ht script_heap script_table (PStr ''Rebecca'') (PStr ''999-444-9999'') =
     Inr (script_heap[1 := \<lparr>name = PStr ''Rebecca'', number = PStr ''999-444-9999''\<rparr>],
          script_table) \<and>
   table_inv [] table10 \<and>
   (\<exists>h1 t1 h2 a.
      insert_ht [] table10 (PStr ''Rebecca'') (PStr ''111-555-0002'') = Inr (h1, t1) \<and>
      insert_ht h1 t1 (PStr ''Rebecca'') (PStr ''999-444-9999'') = Inr (h2, t1) \<and>
      search t1 (PStr ''Rebecca'') = Inr (Some a) \<and>
      number (h2 ! a) = PStr ''999-444-9999'' \<and>
      length (filter (\<lambda>e. fst e = PStr ''Rebecca'') (entries t1)) = 1)"
proof -
  have inv10: "table_inv [] table10"
    using table10_init by (rule table_inv_init)
  have s: "search script_table (PStr ''Rebecca'') = Inr (Some 1)"
    by code_simp
  have c: "(script_heap ! 1)\<lparr>number := PStr ''999-444-9999''\<rparr> =
      \<lparr>name = PStr ''Rebecca'', number = PStr ''999-444-9999''\<rparr>"
    by (simp add: script_heap_def)
  have 1: "insert_ht script_heap script_table (PStr ''Rebecca'') (PStr ''999-444-9999'') =
     Inr (script_heap[1 := \<lparr>name = PStr ''Rebecca'', number = PStr ''999-444-9999''\<rparr>],
          script_table)"
  proof -
    have "insert_ht script_heap script_table (PStr ''Rebecca'') (PStr ''999-444-9999'') =
        Inr (script_heap[1 := (script_heap ! 1)\<lparr>number := PStr ''999-444-9999''\<rparr>],
             script_table)"
      using update_law [OF script_inv, of "PStr ''Rebecca''" "PStr ''999-444-9999''"] s
      by blast
    then show ?thesis by (simp only: c)
  qed
  have 2: "\<exists>h1 t1 h2 a.
      insert_ht [] table10 (PStr ''Rebecca'') (PStr ''111-555-0002'') = Inr (h1, t1) \<and>
      insert_ht h1 t1 (PStr ''Rebecca'') (PStr ''999-444-9999'') = Inr (h2, t1) \<and>
      search t1 (PStr ''Rebecca'') = Inr (Some a) \<and>
      number (h2 ! a) = PStr ''999-444-9999'' \<and>
      length (filter (\<lambda>e. fst e = PStr ''Rebecca'') (entries t1)) = 1"
    using update_law [OF inv10, of "PStr ''Rebecca''" _ "PStr ''111-555-0002''"
        "PStr ''999-444-9999''"]
    by blast
  from script_inv s 1 inv10 2 show ?thesis by blast
qed

lemma distinct_snd_eq:
  assumes "distinct (map snd xs)" and "e \<in> set xs" and "e' \<in> set xs" and "snd e = snd e'"
  shows "e = e'"
  using assms by (auto simp: distinct_map inj_on_def)

lemma update_beyond: "\<not> a < length h \<Longrightarrow> h[a := x] = h"
  by (simp add: list_update_beyond)

lemma render_entry_update:
  assumes "py_str (number (h ! a)) = py_str num"
  shows "render_entry (h[a := (h ! a)\<lparr>number := num\<rparr>]) e = render_entry h e"
proof (cases "snd e = a \<and> a < length h")
  case True
  with assms show ?thesis by (simp add: render_entry_def)
next
  case False
  then have "h[a := (h ! a)\<lparr>number := num\<rparr>] ! snd e = h ! snd e"
    by (cases "a < length h") (auto simp: update_beyond)
  then show ?thesis by (simp add: render_entry_def)
qed

lemma dump_line_update:
  assumes "py_str (number (h ! a)) = py_str num"
  shows "dump_line (h[a := (h ! a)\<lparr>number := num\<rparr>]) t i = dump_line h t i"
proof -
  have "render_entry (h[a := (h ! a)\<lparr>number := num\<rparr>]) = render_entry h"
    by (rule ext) (rule render_entry_update [OF assms])
  then show ?thesis by (simp add: dump_line_def split: list.split)
qed

lemma Contact_str_update:
  assumes "py_str (number (h ! a)) = py_str num"
  shows "map Contact_str (h[a := (h ! a)\<lparr>number := num\<rparr>]) = map Contact_str h"
proof (cases "a < length h")
  case True
  have "map Contact_str (h[a := (h ! a)\<lparr>number := num\<rparr>]) =
        (map Contact_str h)[a := Contact_str ((h ! a)\<lparr>number := num\<rparr>)]"
    by (rule map_update)
  also have "Contact_str ((h ! a)\<lparr>number := num\<rparr>) = map Contact_str h ! a"
    using True assms by (simp add: Contact_str_def)
  finally show ?thesis by simp
next
  case False
  then show ?thesis by (simp add: update_beyond)
qed

text \<open>
  Two insertions in succession. On a table built by the constructor and insertions, two
  insertions of one name with one string number leave exactly the store and the table
  that the first one leaves. For any number, string or not, the second insertion leaves
  the table of the first, the same dump and the same display form of every Contact.
\<close>

lemma insert_twice:
  assumes "table_inv h t"
  shows "(\<exists>h1 t1. insert_ht h t nm (PStr s) = Inr (h1, t1) \<and>
            insert_ht h1 t1 nm (PStr s) = Inr (h1, t1)) \<and>
         (\<exists>h1 t1 h2. insert_ht h t nm num = Inr (h1, t1) \<and>
            insert_ht h1 t1 nm num = Inr (h2, t1) \<and>
            print_table h2 t1 = print_table h1 t1 \<and>
            map Contact_str h2 = map Contact_str h1 \<and> map name h2 = map name h1)"
proof -
  from assms have wf: "wf_table t" by (simp add: table_inv_def)
  have twice: "\<exists>h1 t1 a. insert_ht h t nm n = Inr (h1, t1) \<and> wf_table t1 \<and>
      insert_ht h1 t1 nm n = Inr (h1[a := (h1 ! a)\<lparr>number := n\<rparr>], t1) \<and>
      py_str (number (h1 ! a)) = py_str n \<and>
      (number (h1 ! a) = n \<or> number (h1 ! a) = PStr (py_str n))" for n
  proof -
    obtain h1 t1 where 1: "insert_ht h t nm n = Inr (h1, t1)"
      using insert_ht_total [OF wf] by fastforce
    with assms have "table_inv h1 t1" by (rule table_inv_insert)
    then have wf1: "wf_table t1" by (simp add: table_inv_def)
    from after_insert [OF assms 1] obtain a where
      s: "search t1 nm = Inr (Some a)" and p: "py_str (number (h1 ! a)) = py_str n"
      and n: "number (h1 ! a) = n \<or> number (h1 ! a) = PStr (py_str n)" by blast
    from wf1 s have "insert_ht h1 t1 nm n = Inr (h1[a := (h1 ! a)\<lparr>number := n\<rparr>], t1)"
      by (rule insert_ht_present)
    with 1 wf1 p n show ?thesis by blast
  qed
  have "\<exists>h1 t1. insert_ht h t nm (PStr s) = Inr (h1, t1) \<and>
      insert_ht h1 t1 nm (PStr s) = Inr (h1, t1)"
  proof -
    from twice [of "PStr s"] obtain h1 t1 a where
      1: "insert_ht h t nm (PStr s) = Inr (h1, t1)"
      and 2: "insert_ht h1 t1 nm (PStr s) = Inr (h1[a := (h1 ! a)\<lparr>number := PStr s\<rparr>], t1)"
      and n: "number (h1 ! a) = PStr s \<or> number (h1 ! a) = PStr (py_str (PStr s))" by blast
    from n have "number (h1 ! a) = PStr s" by simp
    then have "(h1 ! a)\<lparr>number := PStr s\<rparr> = h1 ! a" by simp
    then have "h1[a := (h1 ! a)\<lparr>number := PStr s\<rparr>] = h1" by simp
    with 1 2 show ?thesis by simp
  qed
  moreover have "\<exists>h1 t1 h2. insert_ht h t nm num = Inr (h1, t1) \<and>
      insert_ht h1 t1 nm num = Inr (h2, t1) \<and> print_table h2 t1 = print_table h1 t1 \<and>
      map Contact_str h2 = map Contact_str h1 \<and> map name h2 = map name h1"
  proof -
    from twice [of num] obtain h1 t1 a where
      1: "insert_ht h t nm num = Inr (h1, t1)" and wf1: "wf_table t1"
      and 2: "insert_ht h1 t1 nm num = Inr (h1[a := (h1 ! a)\<lparr>number := num\<rparr>], t1)"
      and p: "py_str (number (h1 ! a)) = py_str num" by blast
    let ?h2 = "h1[a := (h1 ! a)\<lparr>number := num\<rparr>]"
    have "print_table ?h2 t1 = print_table h1 t1"
      by (simp add: print_table_dump [OF wf1] dump_line_update [OF p])
    moreover have "map Contact_str ?h2 = map Contact_str h1"
      using p by (rule Contact_str_update)
    moreover have "map name ?h2 = map name h1"
      by (cases "a < length h1") (simp_all add: map_update list_update_same_conv update_beyond)
    ultimately show ?thesis using 1 2 by blast
  qed
  ultimately show ?thesis by blast
qed

lemma insert_twice_script:
  "table_inv script_heap script_table \<and>
   insert_ht script_heap script_table (PStr ''Chris'') (PStr ''555-000-1111'') =
     Inr (script_heap @ [\<lparr>name = PStr ''Chris'', number = PStr ''555-000-1111''\<rparr>],
          script_table\<lparr>data := (data script_table)[5 := Some (Node (PStr ''Chris'') 4
            (Some (Node (PStr ''May'') 3 (Some (Node (PStr ''Amy'') 2 None)))))]\<rparr>) \<and>
   insert_ht (script_heap @ [\<lparr>name = PStr ''Chris'', number = PStr ''555-000-1111''\<rparr>])
       (script_table\<lparr>data := (data script_table)[5 := Some (Node (PStr ''Chris'') 4
            (Some (Node (PStr ''May'') 3 (Some (Node (PStr ''Amy'') 2 None)))))]\<rparr>)
       (PStr ''Chris'') (PStr ''555-000-1111'') =
     Inr (script_heap @ [\<lparr>name = PStr ''Chris'', number = PStr ''555-000-1111''\<rparr>],
          script_table\<lparr>data := (data script_table)[5 := Some (Node (PStr ''Chris'') 4
            (Some (Node (PStr ''May'') 3 (Some (Node (PStr ''Amy'') 2 None)))))]\<rparr>)"
proof -
  let ?h = "script_heap @ [\<lparr>name = PStr ''Chris'', number = PStr ''555-000-1111''\<rparr>]"
  let ?t = "script_table\<lparr>data := (data script_table)[5 := Some (Node (PStr ''Chris'') 4
            (Some (Node (PStr ''May'') 3 (Some (Node (PStr ''Amy'') 2 None)))))]\<rparr>"
  have e: "insert_ht script_heap script_table (PStr ''Chris'') (PStr ''555-000-1111'') =
      Inr (?h, ?t)"
    by code_simp
  from insert_twice [OF script_inv, of "PStr ''Chris''" "''555-000-1111''"]
  obtain h1 t1 where
    "insert_ht script_heap script_table (PStr ''Chris'') (PStr ''555-000-1111'') = Inr (h1, t1)"
    and 2: "insert_ht h1 t1 (PStr ''Chris'') (PStr ''555-000-1111'') = Inr (h1, t1)"
    by blast
  with e have "h1 = ?h" and "t1 = ?t" by simp_all
  with 2 have 3: "insert_ht ?h ?t (PStr ''Chris'') (PStr ''555-000-1111'') = Inr (?h, ?t)"
    by simp
  show ?thesis by (rule conjI [OF script_inv conjI [OF e 3]])
qed

text \<open>
  C8 (idempotence of insert) fails for a number that is not a string. On \<open>HashTable(10)\<close>,
  the first insertion of Zed with the integer 5 creates a Contact whose number is the
  string \<open>5\<close>, as \<^verbatim>\<open>Contact.__init__\<close> coerces it; the second finds Zed and assigns the
  integer 5 as given (\<^verbatim>\<open>curr.value.number = number\<close>). The table is the same after both, and
  \<open>search\<close> returns the same Contact, but its number after two insertions is not its
  number after one.
\<close>

theorem insert_twice_int_number:
  "insert_ht [] table10 (PStr ''Zed'') (PInt 5) =
     Inr ([\<lparr>name = PStr ''Zed'', number = PStr ''5''\<rparr>],
          table10\<lparr>data := (data table10)[1 := Some (Node (PStr ''Zed'') 0 None)]\<rparr>) \<and>
   insert_ht [\<lparr>name = PStr ''Zed'', number = PStr ''5''\<rparr>]
       (table10\<lparr>data := (data table10)[1 := Some (Node (PStr ''Zed'') 0 None)]\<rparr>)
       (PStr ''Zed'') (PInt 5) =
     Inr ([\<lparr>name = PStr ''Zed'', number = PInt 5\<rparr>],
          table10\<lparr>data := (data table10)[1 := Some (Node (PStr ''Zed'') 0 None)]\<rparr>) \<and>
   search (table10\<lparr>data := (data table10)[1 := Some (Node (PStr ''Zed'') 0 None)]\<rparr>)
       (PStr ''Zed'') = Inr (Some 0) \<and>
   number ([\<lparr>name = PStr ''Zed'', number = PStr ''5''\<rparr>] ! 0) \<noteq>
   number ([\<lparr>name = PStr ''Zed'', number = PInt 5\<rparr>] ! 0)"
  by code_simp

text \<open>
  C9 (frame of insert). On a table built by the constructor and insertions, \<open>insert\<close>
  raises nothing and keeps the size and the number of buckets. Every bucket but the one
  of the name keeps its chain, and the Contacts of its entries are unchanged. When the
  name has an entry, the table is unchanged and so is every Contact but the one of that
  entry, which keeps its name and gets the number. When the name has none, the bucket
  of the name gets one new head node whose \<open>next\<close> is the chain as it was, and every
  Contact of the table is unchanged.
\<close>

theorem insert_frame:
  assumes "table_inv h t"
  shows "\<exists>h' t'. insert_ht h t nm num = Inr (h', t') \<and>
     size_ht t' = size_ht t \<and> length (data t') = length (data t) \<and>
     (\<forall>i<length (data t). i \<noteq> bucket t nm \<longrightarrow>
        data t' ! i = data t ! i \<and> (\<forall>e\<in>set (chain (data t ! i)). h' ! snd e = h ! snd e)) \<and>
     (\<forall>a. search t nm = Inr (Some a) \<longrightarrow>
        t' = t \<and> length h' = length h \<and> name (h' ! a) = name (h ! a) \<and>
        number (h' ! a) = num \<and>
        (\<forall>e\<in>set (entries t). e \<noteq> (nm, a) \<longrightarrow> h' ! snd e = h ! snd e)) \<and>
     (search t nm = Inr None \<longrightarrow>
        data t' ! bucket t nm = Some (Node nm (length h) (data t ! bucket t nm)) \<and>
        length h' = Suc (length h) \<and> (\<forall>e\<in>set (entries t). h' ! snd e = h ! snd e))"
proof -
  from assms have wf: "wf_table t" and pl: "placed t"
    and da: "distinct (map snd (entries t))"
    and va: "\<forall>e\<in>set (entries t). snd e < length h"
    by (simp_all add: table_inv_def list_all_iff)
  have lt: "bucket t nm < length (data t)" using wf by (rule bucket_less)
  show ?thesis
  proof (cases "map_of (chain (data t ! bucket t nm)) nm")
    case None
    let ?h = "h @ [Contact_init nm num]"
    let ?t = "t\<lparr>data := (data t)[bucket t nm := Some (Node nm (length h) (data t ! bucket t nm))]\<rparr>"
    from None have s: "search t nm = Inr None" by (simp add: search_wf [OF wf])
    with wf have 1: "insert_ht h t nm num = Inr (?h, ?t)" by (rule insert_ht_absent)
    have old: "?h ! snd e = h ! snd e" if "e \<in> set (entries t)" for e
      using that va by (simp add: nth_append)
    have other: "data ?t ! i = data t ! i \<and> (\<forall>e\<in>set (chain (data t ! i)). ?h ! snd e = h ! snd e)"
      if "i < length (data t)" and "i \<noteq> bucket t nm" for i
    proof -
      from that(1) have "set (chain (data t ! i)) \<subseteq> set (entries t)"
        by (rule chain_subset_entries)
      with old that(2) show ?thesis by auto
    qed
    have "size_ht ?t = size_ht t" and "length (data ?t) = length (data t)"
      and "data ?t ! bucket t nm = Some (Node nm (length h) (data t ! bucket t nm))"
      and "length ?h = Suc (length h)"
      using lt by simp_all
    with 1 s old other show ?thesis
      by (intro exI [of _ ?h] exI [of _ ?t]) simp
  next
    case (Some a)
    let ?h = "h[a := (h ! a)\<lparr>number := num\<rparr>]"
    from Some have s: "search t nm = Inr (Some a)" by (simp add: search_wf [OF wf])
    with wf have 1: "insert_ht h t nm num = Inr (?h, t)" by (rule insert_ht_present)
    from wf s have mem: "(nm, a) \<in> set (entries t)" by (rule present_entry)
    from assms s have a: "a < length h" by (rule present_valid)
    have rest: "?h ! snd e = h ! snd e" if "e \<in> set (entries t)" and "e \<noteq> (nm, a)" for e
    proof -
      have "snd e \<noteq> a"
      proof
        assume "snd e = a"
        then have "snd e = snd (nm, a)" by simp
        with da that(1) mem have "e = (nm, a)" by (rule distinct_snd_eq)
        with that(2) show False by simp
      qed
      then show ?thesis by simp
    qed
    have other: "data t ! i = data t ! i \<and> (\<forall>e\<in>set (chain (data t ! i)). ?h ! snd e = h ! snd e)"
      if "i < length (data t)" and "i \<noteq> bucket t nm" for i
    proof -
      have "?h ! snd e = h ! snd e" if e: "e \<in> set (chain (data t ! i))" for e
      proof -
        from wf pl \<open>i < length (data t)\<close> e have "bucket t (fst e) = i" by (rule placed_bucket)
        with \<open>i \<noteq> bucket t nm\<close> have "e \<noteq> (nm, a)" by auto
        moreover from \<open>i < length (data t)\<close> e have "e \<in> set (entries t)"
          using chain_subset_entries by blast
        ultimately show ?thesis using rest by blast
      qed
      then show ?thesis by simp
    qed
    have "name (?h ! a) = name (h ! a)" and "number (?h ! a) = num" and "length ?h = length h"
      using a by simp_all
    with 1 s rest other show ?thesis
      by (intro exI [of _ ?h] exI [of _ t]) simp
  qed
qed

theorem insert_frame_witness:
  "table_inv script_heap script_table \<and>
   search script_table (PStr ''Rebecca'') = Inr (Some 1) \<and>
   search script_table (PStr ''Chris'') = Inr None \<and>
   (\<exists>h' t'. insert_ht script_heap script_table (PStr ''Rebecca'') (PStr ''999-444-9999'') =
        Inr (h', t') \<and>
      t' = script_table \<and> number (h' ! 1) = PStr ''999-444-9999'' \<and>
      h' ! 0 = script_heap ! 0 \<and> h' ! 2 = script_heap ! 2 \<and> h' ! 3 = script_heap ! 3) \<and>
   (\<exists>h' t'. insert_ht script_heap script_table (PStr ''Chris'') (PStr ''555-000-1111'') =
        Inr (h', t') \<and>
      size_ht t' = 10 \<and> length (data t') = 10 \<and>
      data t' ! 5 = Some (Node (PStr ''Chris'') 4
        (Some (Node (PStr ''May'') 3 (Some (Node (PStr ''Amy'') 2 None))))) \<and>
      data t' ! 7 = Some (Node (PStr ''Rebecca'') 1 None) \<and>
      data t' ! 9 = Some (Node (PStr ''John'') 0 None) \<and>
      h' ! 0 = script_heap ! 0 \<and> h' ! 1 = script_heap ! 1)"
proof -
  have s1: "search script_table (PStr ''Rebecca'') = Inr (Some 1)"
    and s2: "search script_table (PStr ''Chris'') = Inr None"
    by code_simp+
  have en: "entries script_table =
      [(PStr ''May'', 3), (PStr ''Amy'', 2), (PStr ''Rebecca'', 1), (PStr ''John'', 0)]"
    by (simp add: entries_def script_table_def)
  have b: "bucket script_table (PStr ''Chris'') = 5"
    by (simp add: bucket_def script_table_def py_ord_def)
  have d: "size_ht script_table = 10" "length (data script_table) = 10"
    "data script_table ! 5 = Some (Node (PStr ''May'') 3 (Some (Node (PStr ''Amy'') 2 None)))"
    "data script_table ! 7 = Some (Node (PStr ''Rebecca'') 1 None)"
    "data script_table ! 9 = Some (Node (PStr ''John'') 0 None)"
    "length script_heap = 4"
    by (simp_all add: script_table_def script_heap_def)
  from insert_frame [OF script_inv, of "PStr ''Rebecca''" "PStr ''999-444-9999''"]
  obtain h' t' where
    1: "insert_ht script_heap script_table (PStr ''Rebecca'') (PStr ''999-444-9999'') =
        Inr (h', t')"
    and 2: "\<forall>a. search script_table (PStr ''Rebecca'') = Inr (Some a) \<longrightarrow>
        t' = script_table \<and> length h' = length script_heap \<and>
        name (h' ! a) = name (script_heap ! a) \<and>
        number (h' ! a) = PStr ''999-444-9999'' \<and>
        (\<forall>e\<in>set (entries script_table). e \<noteq> (PStr ''Rebecca'', a) \<longrightarrow>
           h' ! snd e = script_heap ! snd e)"
    by blast
  from 2 s1 have 3: "t' = script_table" "number (h' ! 1) = PStr ''999-444-9999''"
    and 4: "\<forall>e\<in>set (entries script_table). e \<noteq> (PStr ''Rebecca'', 1) \<longrightarrow>
           h' ! snd e = script_heap ! snd e"
    by blast+
  from 4 have 5: "h' ! 0 = script_heap ! 0" "h' ! 2 = script_heap ! 2" "h' ! 3 = script_heap ! 3"
    by (simp_all add: en)
  from insert_frame [OF script_inv, of "PStr ''Chris''" "PStr ''555-000-1111''"]
  obtain g' u' where
    6: "insert_ht script_heap script_table (PStr ''Chris'') (PStr ''555-000-1111'') =
        Inr (g', u')"
    and 7: "size_ht u' = size_ht script_table" "length (data u') = length (data script_table)"
    and 8: "\<forall>i<length (data script_table). i \<noteq> bucket script_table (PStr ''Chris'') \<longrightarrow>
        data u' ! i = data script_table ! i \<and>
        (\<forall>e\<in>set (chain (data script_table ! i)). g' ! snd e = script_heap ! snd e)"
    and 9: "search script_table (PStr ''Chris'') = Inr None \<longrightarrow>
        data u' ! bucket script_table (PStr ''Chris'') =
          Some (Node (PStr ''Chris'') (length script_heap)
            (data script_table ! bucket script_table (PStr ''Chris''))) \<and>
        length g' = Suc (length script_heap) \<and>
        (\<forall>e\<in>set (entries script_table). g' ! snd e = script_heap ! snd e)"
    by blast
  from 8 [rule_format, of 7] 8 [rule_format, of 9]
  have 10: "data u' ! 7 = Some (Node (PStr ''Rebecca'') 1 None)"
    "data u' ! 9 = Some (Node (PStr ''John'') 0 None)"
    by (simp_all add: b d)
  from 9 s2 have 11: "data u' ! 5 = Some (Node (PStr ''Chris'') 4
        (Some (Node (PStr ''May'') 3 (Some (Node (PStr ''Amy'') 2 None)))))"
    and 12: "\<forall>e\<in>set (entries script_table). g' ! snd e = script_heap ! snd e"
    by (simp_all add: b d)
  from 12 have 13: "g' ! 0 = script_heap ! 0" "g' ! 1 = script_heap ! 1"
    by (simp_all add: en)
  from 7 have 14: "size_ht u' = 10" "length (data u') = 10" by (simp_all add: d)
  have A: "\<exists>h' t'. insert_ht script_heap script_table (PStr ''Rebecca'') (PStr ''999-444-9999'') =
        Inr (h', t') \<and>
      t' = script_table \<and> number (h' ! 1) = PStr ''999-444-9999'' \<and>
      h' ! 0 = script_heap ! 0 \<and> h' ! 2 = script_heap ! 2 \<and> h' ! 3 = script_heap ! 3"
    using 1 3 5 by blast
  have B: "\<exists>h' t'. insert_ht script_heap script_table (PStr ''Chris'') (PStr ''555-000-1111'') =
        Inr (h', t') \<and>
      size_ht t' = 10 \<and> length (data t') = 10 \<and>
      data t' ! 5 = Some (Node (PStr ''Chris'') 4
        (Some (Node (PStr ''May'') 3 (Some (Node (PStr ''Amy'') 2 None))))) \<and>
      data t' ! 7 = Some (Node (PStr ''Rebecca'') 1 None) \<and>
      data t' ! 9 = Some (Node (PStr ''John'') 0 None) \<and>
      h' ! 0 = script_heap ! 0 \<and> h' ! 1 = script_heap ! 1"
    using 6 10 11 13 14 by blast
  show ?thesis
    by (rule conjI [OF script_inv conjI [OF s1 conjI [OF s2 conjI [OF A B]]]])
qed

text \<open>
  C10 (empty-string key). The character codes of the empty string sum to 0, so on every
  table of positive size it hashes to bucket 0. On a table fresh from the constructor,
  the insertion of the empty name raises nothing and puts one node in bucket 0; \<open>search\<close>
  of the empty name then returns the new Contact, whose number is the string form of the
  number inserted, which for a string is that string. On every table whose size is
  positive and is the length of \<open>data\<close>, neither \<open>hash_function\<close> nor \<open>search\<close> nor
  \<open>insert\<close> raises on an empty name, nor \<open>insert\<close> on an empty number.
\<close>

theorem empty_key:
  "(0 < size_ht t \<longrightarrow> hash_function t (PStr '''') = Inr 0) \<and>
   (HashTable_init arg = Inr t0 \<longrightarrow>
      (\<exists>t1. insert_ht h t0 (PStr '''') num =
               Inr (h @ [\<lparr>name = PStr '''', number = PStr (py_str num)\<rparr>], t1) \<and>
            data t1 ! 0 = Some (Node (PStr '''') (length h) None) \<and>
            search t1 (PStr '''') = Inr (Some (length h)) \<and>
            number ((h @ [\<lparr>name = PStr '''', number = PStr (py_str num)\<rparr>]) ! length h) =
              PStr (py_str num) \<and>
            (\<forall>s. num = PStr s \<longrightarrow>
               number ((h @ [\<lparr>name = PStr '''', number = PStr (py_str num)\<rparr>]) ! length h) =
                 num))) \<and>
   (wf_table t \<longrightarrow>
      (\<exists>i. hash_function t (PStr '''') = Inr i) \<and> (\<exists>r. search t (PStr '''') = Inr r) \<and>
      (\<exists>x. insert_ht h t (PStr '''') num = Inr x) \<and> (\<exists>x. insert_ht h t nm (PStr '''') = Inr x))"
proof -
  have 1: "hash_function t (PStr '''') = Inr 0" if "0 < size_ht t"
    using that by (simp add: hash_function_def py_sum_def)
  have 2: "\<exists>t1. insert_ht h t0 (PStr '''') num =
               Inr (h @ [\<lparr>name = PStr '''', number = PStr (py_str num)\<rparr>], t1) \<and>
            data t1 ! 0 = Some (Node (PStr '''') (length h) None) \<and>
            search t1 (PStr '''') = Inr (Some (length h)) \<and>
            number ((h @ [\<lparr>name = PStr '''', number = PStr (py_str num)\<rparr>]) ! length h) =
              PStr (py_str num) \<and>
            (\<forall>s. num = PStr s \<longrightarrow>
               number ((h @ [\<lparr>name = PStr '''', number = PStr (py_str num)\<rparr>]) ! length h) =
                 num)"
    if init: "HashTable_init arg = Inr t0"
  proof -
    let ?t1 = "t0\<lparr>data := (data t0)[bucket t0 (PStr '''') :=
        Some (Node (PStr '''') (length h) (data t0 ! bucket t0 (PStr '''')))]\<rparr>"
    from init have "table_inv h t0" by (rule table_inv_init)
    then have wf: "wf_table t0" by (simp add: table_inv_def)
    have b: "bucket t0 (PStr '''') = 0" by (simp add: bucket_def)
    from wf have lt: "0 < length (data t0)" by (auto simp: wf_table_def)
    from init have "data t0 = replicate (nat (size_ht t0)) None"
      by (auto simp: HashTable_init_def Let_def split: if_splits)
    with lt have d: "data t0 ! 0 = None" by (metis length_replicate nth_replicate)
    from init have "search t0 (PStr '''') = Inr None"
      using never_inserted_search [of arg t0 h "[]" h t0 "PStr ''''"] by simp
    with wf have "insert_ht h t0 (PStr '''') num = Inr (h @ [Contact_init (PStr '''') num], ?t1)"
      by (rule insert_ht_absent)
    moreover have "search ?t1 (PStr '''') = Inr (Some (length h))"
      using wf by (rule search_new_head)
    moreover have "data ?t1 ! 0 = Some (Node (PStr '''') (length h) None)"
      using lt by (simp add: b d)
    ultimately show ?thesis by (auto simp: Contact_init_def)
  qed
  have 3: "(\<exists>i. hash_function t (PStr '''') = Inr i) \<and> (\<exists>r. search t (PStr '''') = Inr r) \<and>
      (\<exists>x. insert_ht h t (PStr '''') num = Inr x) \<and> (\<exists>x. insert_ht h t nm (PStr '''') = Inr x)"
    if wf: "wf_table t"
  proof -
    from wf have "hash_function t (PStr '''') = Inr 0" by (simp add: 1 wf_table_def)
    moreover have "\<exists>r. search t (PStr '''') = Inr r" by (simp add: search_wf [OF wf])
    moreover note insert_ht_total [OF wf, of h "PStr ''''" num]
      insert_ht_total [OF wf, of h nm "PStr ''''"]
    ultimately show ?thesis by blast
  qed
  from 1 2 3 show ?thesis by blast
qed

theorem empty_key_witness:
  "0 < size_ht table10 \<and> hash_function table10 (PStr '''') = Inr 0 \<and>
   HashTable_init (Some 10) = Inr table10 \<and>
   (\<exists>t1. insert_ht [] table10 (PStr '''') (PStr ''555-000-1111'') =
            Inr ([\<lparr>name = PStr '''', number = PStr ''555-000-1111''\<rparr>], t1) \<and>
          data t1 ! 0 = Some (Node (PStr '''') 0 None) \<and>
          search t1 (PStr '''') = Inr (Some 0)) \<and>
   wf_table script_table \<and>
   (\<exists>x. insert_ht script_heap script_table (PStr '''') (PStr '''') = Inr x)"
proof -
  have p: "0 < size_ht table10" by (simp add: table10_def)
  have wf: "wf_table script_table" using script_inv by (simp add: table_inv_def)
  have 1: "hash_function table10 (PStr '''') = Inr 0"
    using empty_key [of table10] p by blast
  have 2: "\<exists>t1. insert_ht [] table10 (PStr '''') (PStr ''555-000-1111'') =
            Inr ([\<lparr>name = PStr '''', number = PStr ''555-000-1111''\<rparr>], t1) \<and>
          data t1 ! 0 = Some (Node (PStr '''') 0 None) \<and>
          search t1 (PStr '''') = Inr (Some 0)"
    using empty_key [of _ "Some 10" table10 "[]" "PStr ''555-000-1111''"] table10_init
    by simp
  have 3: "\<exists>x. insert_ht script_heap script_table (PStr '''') (PStr '''') = Inr x"
    using empty_key [of script_table _ _ script_heap "PStr ''''"] wf by blast
  show ?thesis
    by (rule conjI [OF p conjI [OF 1 conjI [OF table10_init conjI [OF 2 conjI [OF wf 3]]]]])
qed

section \<open>Coercion to strings\<close>

text \<open>
  C3 (coercion), as the specification states it, fails: an entry inserted under the
  integer 123 is not found under its string form. \<open>insert\<close> stores the name as given
  in the node, and \<open>search\<close> compares the name as given with it; only \<open>hash_function\<close>
  and the constructor of \<open>Contact\<close> call \<open>str\<close>.
\<close>

theorem coercion_counterexample:
  "py_str (PInt 123) = ''123'' \<and>
   insert_ht [] table10 (PInt 123) (PStr ''555-000-1111'') =
     Inr ([\<lparr>name = PStr ''123'', number = PStr ''555-000-1111''\<rparr>],
          table10\<lparr>data := (data table10)[0 := Some (Node (PInt 123) 0 None)]\<rparr>) \<and>
   search (table10\<lparr>data := (data table10)[0 := Some (Node (PInt 123) 0 None)]\<rparr>)
     (PStr ''123'') = Inr None \<and>
   search (table10\<lparr>data := (data table10)[0 := Some (Node (PInt 123) 0 None)]\<rparr>)
     (PInt 123) = Inr (Some 0)"
  by code_simp

text \<open>
  The update of an existing name stores the number as given, where the insertion of a new
  name stores its string form.
\<close>

lemma update_stores_number_as_given:
  "insert_ht [\<lparr>name = PStr ''123'', number = PStr ''555-000-1111''\<rparr>]
     (table10\<lparr>data := (data table10)[0 := Some (Node (PInt 123) 0 None)]\<rparr>)
     (PInt 123) (PInt 5) =
   Inr ([\<lparr>name = PStr ''123'', number = PInt 5\<rparr>],
        table10\<lparr>data := (data table10)[0 := Some (Node (PInt 123) 0 None)]\<rparr>)"
  by code_simp

text \<open>
  C3, amended. \<open>hash_function\<close> coerces its key to its string form: a key and its string
  form hash alike. \<open>search\<close> compares the name as given with the keys of the chain. The
  insertion of a name that \<open>search\<close> does not find creates a Contact that holds the string
  forms of the name and of the number, under a node that holds the name as given, and
  \<open>search\<close> of that same name then returns this Contact.
\<close>

theorem coercion_amended:
  assumes "wf_table t"
  shows "hash_function t nm = hash_function t (PStr (py_str nm)) \<and>
         search t nm = Inr (map_of (chain (data t ! bucket t nm)) nm) \<and>
         (search t nm = Inr None \<longrightarrow>
            (\<exists>t'. insert_ht h t nm num =
                     Inr (h @ [\<lparr>name = PStr (py_str nm), number = PStr (py_str num)\<rparr>], t') \<and>
                  data t' ! bucket t nm = Some (Node nm (length h) (data t ! bucket t nm)) \<and>
                  search t' nm = Inr (Some (length h))))"
proof -
  have "hash_function t nm = hash_function t (PStr (py_str nm))"
    by (simp add: hash_function_def)
  moreover have "search t nm = Inr (map_of (chain (data t ! bucket t nm)) nm)"
    using assms by (rule search_wf)
  moreover have "\<exists>t'. insert_ht h t nm num =
                     Inr (h @ [\<lparr>name = PStr (py_str nm), number = PStr (py_str num)\<rparr>], t') \<and>
                  data t' ! bucket t nm = Some (Node nm (length h) (data t ! bucket t nm)) \<and>
                  search t' nm = Inr (Some (length h))"
    if "search t nm = Inr None"
  proof -
    let ?t = "t\<lparr>data := (data t)[bucket t nm := Some (Node nm (length h) (data t ! bucket t nm))]\<rparr>"
    from assms that have "insert_ht h t nm num = Inr (h @ [Contact_init nm num], ?t)"
      by (rule insert_ht_absent)
    moreover have "search ?t nm = Inr (Some (length h))"
      using assms by (rule search_new_head)
    moreover have "bucket t nm < length (data t)" using assms by (rule bucket_less)
    ultimately show ?thesis by (simp add: Contact_init_def)
  qed
  ultimately show ?thesis by blast
qed

theorem coercion_amended_witness:
  "wf_table table10 \<and> search table10 (PInt 123) = Inr None \<and>
   hash_function table10 (PInt 123) = hash_function table10 (PStr ''123'') \<and>
   (\<exists>t'. insert_ht [] table10 (PInt 123) (PInt 5) =
            Inr ([\<lparr>name = PStr ''123'', number = PStr ''5''\<rparr>], t') \<and>
          data t' ! 0 = Some (Node (PInt 123) 0 None) \<and>
          search t' (PInt 123) = Inr (Some 0))"
proof -
  have wf: "wf_table table10" by (simp add: wf_table_def table10_def)
  have s: "search table10 (PInt 123) = Inr None" by code_simp
  have p: "py_str (PInt 123) = ''123''" "py_str (PInt 5) = ''5''" by code_simp+
  have n: "str_nat 123 = ''123''" "str_nat 5 = ''5''" by code_simp+
  have b: "bucket table10 (PInt 123) = 0" "data table10 ! 0 = None"
    by (simp_all add: bucket_def n py_ord_def table10_def)
  have 1: "hash_function table10 (PInt 123) = hash_function table10 (PStr ''123'')"
    using coercion_amended [OF wf, of "PInt 123"] by (simp only: p)
  have 2: "\<exists>t'. insert_ht [] table10 (PInt 123) (PInt 5) =
            Inr ([\<lparr>name = PStr ''123'', number = PStr ''5''\<rparr>], t') \<and>
          data t' ! 0 = Some (Node (PInt 123) 0 None) \<and>
          search t' (PInt 123) = Inr (Some 0)"
    using coercion_amended [OF wf, of "PInt 123" "[]" "PInt 5"] s
    by (simp add: n b)
  show ?thesis
    by (rule conjI [OF wf conjI [OF s conjI [OF 1 2]]])
qed

end
